theory Spec2Isabelle
  imports Complex_Main "HOL-Library.AList" "HOL-Library.Word"
begin

section \<open>Python values shared by the modules\<close>

text \<open>
  Exceptions are values. Only the classes that some handler of the program tells apart
  are named; every other subclass of \<open>Exception\<close> is \<open>OtherError\<close> with its name.
\<close>

datatype exn =
    AttributeError | TypeError | ValueError | IndexError | OverflowError
  | JSONDecodeError | FileNotFoundError | PermissionError | OtherError string

text \<open>
  A \<open>datetime\<close> is either aware (it carries a \<open>tzinfo\<close>) or naive. An aware one is
  modelled by its instant, in microseconds since the epoch; a naive one by its wall-clock
  reading in the same unit. Python orders two aware values by instant and raises
  \<open>TypeError\<close> when an aware value is ordered against a naive one.
\<close>

datatype datetime = Aware int | Naive int

text \<open>\<open>a >= b\<close> on datetimes.\<close>

fun datetime_ge :: "datetime \<Rightarrow> datetime \<Rightarrow> exn + bool" where
  "datetime_ge (Aware a) (Aware b) = Inr (a \<ge> b)"
| "datetime_ge (Naive a) (Naive b) = Inr (a \<ge> b)"
| "datetime_ge _ _ = Inl TypeError"

text \<open>
  A Python string is a list of characters; one \<open>char\<close> of the model stands for one
  character (code point) of the source, so \<open>length\<close> is Python's \<open>len\<close>.
\<close>

text \<open>\<open>d.get(k, default)\<close> on a dict kept as an association list in insertion order.\<close>

definition dict_get :: "('k \<times> 'v) list \<Rightarrow> 'k \<Rightarrow> 'v \<Rightarrow> 'v" where
  "dict_get d k dflt = (case map_of d k of None \<Rightarrow> dflt | Some v \<Rightarrow> v)"

section \<open>news\_fetcher.py: Article\<close>

text \<open>
  The dataclass \<open>Article\<close>. The field \<open>id\<close> is named \<open>article_id\<close> and the unused
  field \<open>ai_summary\<close> is named \<open>article_ai_summary\<close>, since \<open>id\<close> is a constant of HOL
  and \<open>ai_summary\<close> is also a field of \<open>SummarizedArticle\<close>.
\<close>

record article =
  title :: string
  link :: string
  source :: string
  published :: datetime
  summary :: string
  article_ai_summary :: string
  topic :: string
  article_id :: string

text \<open>
  The constructor followed by \<open>__post_init__\<close>. The parameter \<open>md5\<close> is
  \<open>\<lambda>s. hashlib.md5(s.encode()).hexdigest()\<close>, a function of the standard library.
\<close>

definition Article ::
  "(string \<Rightarrow> string) \<Rightarrow> string \<Rightarrow> string \<Rightarrow> string \<Rightarrow> datetime \<Rightarrow> string \<Rightarrow> string \<Rightarrow> string
     \<Rightarrow> string \<Rightarrow> article" where
  "Article md5 t l s p sm ai tp i =
     \<lparr>title = t, link = l, source = s, published = p, summary = sm,
      article_ai_summary = ai, topic = tp,
      article_id = (if i = [] then take 12 (md5 (t @ l)) else i)\<rparr>"

section \<open>summarizer.py\<close>

subsection \<open>JSON values, as \<open>json.loads\<close> returns them\<close>

text \<open>
  A float is a finite value, an infinity or NaN (\<open>json.loads\<close> accepts the literals
  \<open>Infinity\<close>, \<open>-Infinity\<close> and \<open>NaN\<close>). A finite float is kept as the rational it
  denotes. A \<open>JObj\<close> is a dict: an association list in insertion order, with
  distinct keys.
\<close>

datatype pyfloat = Finite rat | PosInf | NegInf | NaN

datatype json =
    JNull | JBool bool | JInt int | JFloat pyfloat | JStr string
  | JArr "json list" | JObj "(string \<times> json) list"

text \<open>The result of \<open>x - 1\<close> when it does not raise: an int or a float.\<close>

datatype pynum = PInt int | PFloat pyfloat

text \<open>
  \<open>item.get("index", 1) - 1\<close>, given the value that \<open>get\<close> returned. \<open>bool\<close> is a
  subclass of \<open>int\<close>; \<open>None\<close>, strings, lists and dicts raise \<open>TypeError\<close>. Subtracting
  1 from a finite float rounds, but never across 0 or across a list length, the only
  values the result is compared with, so the exact difference is kept.
\<close>

fun index_minus_one :: "json \<Rightarrow> exn + pynum" where
  "index_minus_one (JInt n) = Inr (PInt (n - 1))"
| "index_minus_one (JBool b) = Inr (PInt ((if b then 1 else 0) - 1))"
| "index_minus_one (JFloat (Finite r)) = Inr (PFloat (Finite (r - 1)))"
| "index_minus_one (JFloat f) = Inr (PFloat f)"
| "index_minus_one _ = Inl TypeError"

text \<open>\<open>0 <= idx < n\<close>; every comparison with NaN is false.\<close>

fun idx_in_range :: "pynum \<Rightarrow> nat \<Rightarrow> bool" where
  "idx_in_range (PInt i) n = (0 \<le> i \<and> i < int n)"
| "idx_in_range (PFloat (Finite r)) n = (0 \<le> r \<and> r < of_nat n)"
| "idx_in_range (PFloat _) n = False"

text \<open>
  \<open>for item in v\<close>: a list yields its elements, a dict its keys, a string its characters
  (each a string of length one); the other values are not iterable.
\<close>

fun py_iter :: "json \<Rightarrow> exn + json list" where
  "py_iter (JArr xs) = Inr xs"
| "py_iter (JObj kvs) = Inr (map (\<lambda>kv. JStr (fst kv)) kvs)"
| "py_iter (JStr s) = Inr (map (\<lambda>c. JStr [c]) s)"
| "py_iter _ = Inl TypeError"

subsection \<open>SummarizedArticle and the batch loop\<close>

text \<open>
  The dataclass checks no types, so the three AI fields hold whatever the response
  held: they are JSON values.
\<close>

record summarized_article =
  original :: article
  ai_title :: json
  ai_summary :: json
  key_points :: json

text \<open>The fallback written out twice in \<open>summarize_batch\<close>: one element per article.\<close>

definition fallback :: "article list \<Rightarrow> summarized_article list" where
  "fallback batch =
     map (\<lambda>a. \<lparr>original = a, ai_title = JStr (title a), ai_summary = JStr (summary a),
               key_points = JArr []\<rparr>) batch"

text \<open>
  The body of the loop over the response's elements, for one element: \<open>Inl e\<close> when it
  raises, \<open>Inr None\<close> when the index is out of range and nothing is appended,
  \<open>Inr (Some s)\<close> when \<open>s\<close> is appended. An element that is not a dict has no \<open>get\<close>
  (\<open>AttributeError\<close>); a float index in range reaches \<open>batch[idx]\<close>, which raises
  \<open>TypeError\<close>.
\<close>

fun summarize_item :: "article list \<Rightarrow> json \<Rightarrow> exn + summarized_article option" where
  "summarize_item batch (JObj kvs) =
     (case index_minus_one (dict_get kvs ''index'' (JInt 1)) of
        Inl e \<Rightarrow> Inl e
      | Inr idx \<Rightarrow>
          if idx_in_range idx (length batch) then
            (case idx of
               PInt i \<Rightarrow>
                 Inr (Some \<lparr>original = batch ! nat i,
                            ai_title = dict_get kvs ''title'' (JStr (title (batch ! nat i))),
                            ai_summary = dict_get kvs ''summary'' (JStr ''''),
                            key_points = dict_get kvs ''key_points'' (JArr [])\<rparr>)
             | PFloat f \<Rightarrow> Inl TypeError)
          else Inr None)"
| "summarize_item batch _ = Inl AttributeError"

text \<open>
  The loop over the elements: the elements appended, and the exception that stopped
  the loop, if any. What was appended before the exception stays appended.
\<close>

fun parse_items :: "article list \<Rightarrow> json list \<Rightarrow> summarized_article list \<times> exn option" where
  "parse_items batch [] = ([], None)"
| "parse_items batch (item # items) =
     (case summarize_item batch item of
        Inl e \<Rightarrow> ([], Some e)
      | Inr None \<Rightarrow> parse_items batch items
      | Inr (Some s) \<Rightarrow> (case parse_items batch items of (out, r) \<Rightarrow> (s # out, r)))"

text \<open>\<open>for item in data.get("articles", [])\<close> with its body, for the decoded \<open>data\<close>.\<close>

fun parse_response :: "article list \<Rightarrow> json \<Rightarrow> summarized_article list \<times> exn option" where
  "parse_response batch (JObj kvs) =
     (case py_iter (dict_get kvs ''articles'' (JArr [])) of
        Inl e \<Rightarrow> ([], Some e)
      | Inr items \<Rightarrow> parse_items batch items)"
| "parse_response batch _ = ([], Some AttributeError)"

text \<open>
  What \<open>client.chat.completions.create\<close> does: it raises, or it returns a response,
  of which the program reads \<open>choices[k].message.content\<close>, a string or \<open>None\<close>.
\<close>

datatype api_reply = Raises exn | Reply "string option list"

text \<open>
  The collaborators of the summarizer. \<open>chat_create n batch\<close> is the outcome of the
  \<open>n\<close>-th call of the client, made for \<open>batch\<close> (the prompt is a function of the batch);
  \<open>json_loads\<close> is \<open>json.loads\<close> on a string.
\<close>

record summarizer_env =
  chat_create :: "nat \<Rightarrow> article list \<Rightarrow> api_reply"
  json_loads :: "string \<Rightarrow> exn + json"

text \<open>
  One iteration of the loop over the batches: what it appends to \<open>summarized\<close>. The
  inner handler takes \<open>JSONDecodeError\<close>, the outer one every other exception, and both
  append the fallback; a missing or empty \<open>content\<close> appends nothing.
\<close>

definition summarize_one_batch ::
  "summarizer_env \<Rightarrow> nat \<Rightarrow> article list \<Rightarrow> summarized_article list" where
  "summarize_one_batch env n batch =
     (case chat_create env n batch of
        Raises e \<Rightarrow> fallback batch
      | Reply [] \<Rightarrow> fallback batch
      | Reply (None # _) \<Rightarrow> []
      | Reply (Some content # _) \<Rightarrow>
          if content = [] then []
          else (case json_loads env content of
                  Inl JSONDecodeError \<Rightarrow> fallback batch
                | Inl e \<Rightarrow> fallback batch
                | Inr data \<Rightarrow>
                    (case parse_response batch data of
                       (out, None) \<Rightarrow> out
                     | (out, Some e) \<Rightarrow> out @ fallback batch)))"

text \<open>\<open>articles[i : i + batch_size]\<close> for \<open>i\<close> in \<open>range(0, len(articles), batch_size)\<close>.\<close>

function batches :: "nat \<Rightarrow> 'a list \<Rightarrow> 'a list list" where
  "batches n xs = (if n = 0 \<or> xs = [] then [] else take n xs # batches n (drop n xs))"
  by pat_completeness auto
termination
  by (relation "measure (\<lambda>(n, xs). length xs)") auto

declare batches.simps [simp del]

text \<open>The loop over the batches; the \<open>n\<close>-th call of the client serves the \<open>n\<close>-th batch.\<close>

fun summarize_batches ::
  "summarizer_env \<Rightarrow> nat \<Rightarrow> article list list \<Rightarrow> summarized_article list \<times> nat" where
  "summarize_batches env n [] = ([], n)"
| "summarize_batches env n (b # bs) =
     (case summarize_batches env (Suc n) bs of
        (out, n') \<Rightarrow> (summarize_one_batch env n b @ out, n'))"

text \<open>
  \<open>summarize_batch\<close>. \<open>range\<close> raises \<open>ValueError\<close> on a step of zero, outside every
  \<open>try\<close>, and is empty on a negative step. The second component is the number of calls
  the client has served so far.
\<close>

definition summarize_batch ::
  "summarizer_env \<Rightarrow> nat \<Rightarrow> article list \<Rightarrow> int \<Rightarrow> exn + summarized_article list \<times> nat" where
  "summarize_batch env n articles batch_size =
     (if articles = [] then Inr ([], n)
      else if batch_size = 0 then Inl ValueError
      else if batch_size < 0 then Inr ([], n)
      else Inr (summarize_batches env n (batches (nat batch_size) articles)))"

text \<open>
  \<open>summarize_all\<close>: the loop over \<open>articles_by_topic.items()\<close>, with the default batch
  size 5, storing \<open>results[topic]\<close>.
\<close>

fun summarize_all ::
  "summarizer_env \<Rightarrow> nat \<Rightarrow> (string \<times> article list) list
     \<Rightarrow> (string \<times> summarized_article list) list
     \<Rightarrow> exn + (string \<times> summarized_article list) list \<times> nat" where
  "summarize_all env n [] results = Inr (results, n)"
| "summarize_all env n ((tp, articles) # rest) results =
     (case summarize_batch env n articles 5 of
        Inl e \<Rightarrow> Inl e
      | Inr (out, n') \<Rightarrow> summarize_all env n' rest (AList.update tp out results))"

section \<open>news\_fetcher.py: NewsFetcher\<close>

subsection \<open>String operations\<close>

text \<open>
  The characters that \<open>str.strip\<close> removes and that \<open>\s\<close> matches in a \<open>str\<close>
  pattern: those for which \<open>str.isspace\<close> holds.
\<close>

definition is_space :: "char \<Rightarrow> bool" where
  "is_space c =
     (let n = (of_char c :: nat)
      in (9 \<le> n \<and> n \<le> 13) \<or> (28 \<le> n \<and> n \<le> 32) \<or> n = 133 \<or> n = 160)"

text \<open>The class \<open>[A-Z]\<close>.\<close>

definition is_upper :: "char \<Rightarrow> bool" where
  "is_upper c = (let n = (of_char c :: nat) in 65 \<le> n \<and> n \<le> 90)"

text \<open>\<open>s.strip()\<close>.\<close>

definition strip :: "string \<Rightarrow> string" where
  "strip s = rev (dropWhile is_space (rev (dropWhile is_space s)))"

text \<open>
  \<open>re.sub(r"\s+[A-Z]{3,4}$", "", s)\<close>. \<open>$\<close> matches at the end of the string and
  before a newline that ends it, so the match is sought in the string without that
  newline: there it is a maximal run of white space followed by exactly three or four
  capitals that end the string.
\<close>

definition strip_tz_abbrev :: "string \<Rightarrow> string" where
  "strip_tz_abbrev s =
     (let nl = (s \<noteq> [] \<and> last s = CHR 0x0A);
          r = rev (if nl then butlast s else s);
          caps = takeWhile is_upper r;
          rest = dropWhile is_upper r
      in if (length caps = 3 \<or> length caps = 4) \<and> rest \<noteq> [] \<and> is_space (hd rest)
         then rev (dropWhile is_space rest) @ (if nl then [CHR 0x0A] else [])
         else s)"

text \<open>
  \<open>re.sub(r"<[^>]+>", "", s)\<close>. At a \<open><\<close> the class \<open>[^>]\<close> takes every character up
  to the next \<open>>\<close>; the pattern matches when that run is not empty and a \<open>>\<close> follows it,
  and the scan resumes behind that \<open>>\<close>. Otherwise the character is kept.
\<close>

function strip_tags :: "string \<Rightarrow> string" where
  "strip_tags [] = []"
| "strip_tags (c # cs) =
     (if c = CHR ''<'' \<and> takeWhile (\<lambda>x. x \<noteq> CHR ''>'') cs \<noteq> []
         \<and> dropWhile (\<lambda>x. x \<noteq> CHR ''>'') cs \<noteq> []
      then strip_tags (tl (dropWhile (\<lambda>x. x \<noteq> CHR ''>'') cs))
      else c # strip_tags cs)"
  by pat_completeness auto
termination
proof (relation "measure length")
  fix c :: char and cs :: string
  have "length (dropWhile (\<lambda>x. x \<noteq> CHR ''>'') cs) \<le> length cs"
    by (rule length_dropWhile_le)
  then show "(tl (dropWhile (\<lambda>x. x \<noteq> CHR ''>'') cs), c # cs) \<in> measure length"
    by simp
qed simp_all

text \<open>\<open>s.replace("Z", "+00:00")\<close>.\<close>

definition replace_Z :: "string \<Rightarrow> string" where
  "replace_Z s = concat (map (\<lambda>c. if c = CHR ''Z'' then ''+00:00'' else [c]) s)"

text \<open>\<open>sep.join(xs)\<close>.\<close>

fun join :: "string \<Rightarrow> string list \<Rightarrow> string" where
  "join sep [] = []"
| "join sep [x] = x"
| "join sep (x # y # ys) = x @ sep @ join sep (y # ys)"

text \<open>\<open>sub in s\<close> on strings.\<close>

fun is_prefix :: "'a list \<Rightarrow> 'a list \<Rightarrow> bool" where
  "is_prefix [] ys = True"
| "is_prefix (x # xs) [] = False"
| "is_prefix (x # xs) (y # ys) = (x = y \<and> is_prefix xs ys)"

fun contains :: "'a list \<Rightarrow> 'a list \<Rightarrow> bool" where
  "contains sub [] = (sub = [])"
| "contains sub (y # ys) = (is_prefix sub (y # ys) \<or> contains sub ys)"

subsection \<open>Feed entries and search results\<close>

text \<open>
  \<open>time.struct_time\<close>, as the feed parser fills the \<open>*_parsed\<close> fields: the nine
  fields of C's \<open>struct tm\<close>, each a C \<open>int\<close> (read with \<open>sint\<close>).
\<close>

record struct_time =
  tm_year :: "32 word"
  tm_mon :: "32 word"
  tm_mday :: "32 word"
  tm_hour :: "32 word"
  tm_min :: "32 word"
  tm_sec :: "32 word"
  tm_wday :: "32 word"
  tm_yday :: "32 word"
  tm_isdst :: "32 word"

text \<open>
  The value of a \<open>summary\<close>, \<open>description\<close> or \<open>content\<close> field of an entry: a string,
  or a list of dicts, of which the program reads the key \<open>value\<close> (a string, or absent).
\<close>

datatype field_value = Text string | Parts "string option list"

text \<open>
  An entry of a parsed feed, with the keys the program reads. \<open>None\<close> is an absent key
  (for a \<open>*_parsed\<close> field also the value \<open>None\<close>, which the program treats alike).
\<close>

record entry =
  entry_title :: "string option"
  entry_link :: "string option"
  published_parsed :: "struct_time option"
  updated_parsed :: "struct_time option"
  created_parsed :: "struct_time option"
  entry_published :: "string option"
  entry_updated :: "string option"
  entry_created :: "string option"
  entry_summary :: "field_value option"
  entry_description :: "field_value option"
  entry_content :: "field_value option"

text \<open>A key of a JSON object whose value is typed: absent, \<open>null\<close>, or a value.\<close>

datatype 'a field = Absent | Null | Present 'a

text \<open>
  An element of \<open>articles\<close> in the search API's body. \<open>item_source\<close> is the dict under
  \<open>source\<close>, reduced to its key \<open>name\<close> (a string, or absent).
\<close>

record api_item =
  item_title :: "string field"
  item_url :: "string field"
  item_source :: "string option field"
  item_publishedAt :: "string field"
  item_description :: "string field"

subsection \<open>Configuration\<close>

record feed_cfg =
  feed_url :: "string option"
  feed_name :: "string option"

record topic_cfg =
  topic_name :: "string option"
  topic_keywords :: "string list"
  rss_feeds :: "feed_cfg list"

text \<open>
  The topics file, decoded. \<open>max_articles_per_topic\<close> and \<open>keep_days\<close> are the keys of
  \<open>settings\<close>; \<open>None\<close> is an absent key (or an absent \<open>settings\<close>).
\<close>

record topics_config =
  topics :: "topic_cfg list"
  max_articles_per_topic :: "int option"
  keep_days :: "int option"

subsection \<open>The collaborators and the state of a fetcher\<close>

text \<open>
  The library functions and the outside world. \<open>md5\<close> is
  \<open>\<lambda>s. hashlib.md5(s.encode()).hexdigest()\<close>; \<open>utc_datetime t\<close> is
  \<open>datetime(*t[:6], tzinfo=timezone.utc)\<close>, \<open>None\<close> when it raises \<open>ValueError\<close> (its
  arguments are C ints, so it raises nothing else); \<open>strptime\<close> and \<open>fromisoformat\<close> are
  those of \<open>datetime\<close>; \<open>urlparse u\<close> is the exception \<open>urllib.parse.urlparse\<close> raises
  on \<open>u\<close>, if any. The world is read through a counter of the calls made so far:
  \<open>now_utc n\<close> is the instant \<open>datetime.now(timezone.utc)\<close> returns at call \<open>n\<close>,
  \<open>feedparser_parse n url\<close> the entries of the feed (or the exception) at call \<open>n\<close>,
  \<open>newsapi_get n query key\<close> the key \<open>articles\<close> of the decoded body (or the exception
  of the request, of the status check or of the decoding), \<open>open_read path\<close> the
  content of a file (or the exception of \<open>open\<close>), \<open>yaml_safe_load\<close> the decoder.
\<close>

record fetcher_env =
  md5 :: "string \<Rightarrow> string"
  utc_datetime :: "struct_time \<Rightarrow> int option"
  strptime :: "string \<Rightarrow> string \<Rightarrow> exn + datetime"
  fromisoformat :: "string \<Rightarrow> exn + datetime"
  urlparse :: "string \<Rightarrow> exn option"
  now_utc :: "nat \<Rightarrow> int"
  feedparser_parse :: "nat \<Rightarrow> string \<Rightarrow> exn + entry list"
  newsapi_get :: "nat \<Rightarrow> string \<Rightarrow> string \<Rightarrow> exn + api_item list field"
  open_read :: "string \<Rightarrow> exn + string"
  yaml_safe_load :: "string \<Rightarrow> exn + topics_config"

text \<open>The mutable part of a \<open>NewsFetcher\<close>, and the counter of calls to the world.\<close>

record fetcher_state =
  seen_ids :: "string set"
  calls :: nat

subsection \<open>Loading the configuration\<close>

text \<open>
  \<open>except ValueError\<close> also takes the subclass \<open>json.JSONDecodeError\<close>; the classes
  gathered in \<open>OtherError\<close> are subclasses of none of the named ones.
\<close>

definition is_ValueError :: "exn \<Rightarrow> bool" where
  "is_ValueError e = (e = ValueError \<or> e = JSONDecodeError)"

text \<open>The configuration \<open>{"topics": [], "settings": {}}\<close>.\<close>

definition empty_config :: topics_config where
  "empty_config = \<lparr>topics = [], max_articles_per_topic = None, keep_days = None\<rparr>"

text \<open>\<open>_load_topics\<close>: only \<open>FileNotFoundError\<close> is handled.\<close>

definition load_topics :: "fetcher_env \<Rightarrow> string \<Rightarrow> exn + topics_config" where
  "load_topics env topics_file =
     (case open_read env topics_file of
        Inl e \<Rightarrow> if e = FileNotFoundError then Inr empty_config else Inl e
      | Inr content \<Rightarrow>
          (case yaml_safe_load env content of
             Inl e \<Rightarrow> if e = FileNotFoundError then Inr empty_config else Inl e
           | Inr cfg \<Rightarrow> Inr cfg))"

subsection \<open>Reading one entry\<close>

text \<open>\<open>_clean_google_news_url\<close>: both branches return the URL; \<open>urlparse\<close> may raise.\<close>

definition clean_google_news_url :: "fetcher_env \<Rightarrow> string \<Rightarrow> exn + string" where
  "clean_google_news_url env url =
     (if contains ''news.google.com'' url
      then (case urlparse env url of Some e \<Rightarrow> Inl e | None \<Rightarrow> Inr url)
      else Inr url)"

text \<open>
  The first loop of \<open>_parse_published_date\<close>, over the values of \<open>published_parsed\<close>,
  \<open>updated_parsed\<close> and \<open>created_parsed\<close>: the first one that the constructor accepts.
\<close>

fun try_parsed :: "(struct_time \<Rightarrow> int option) \<Rightarrow> struct_time option list \<Rightarrow> datetime option" where
  "try_parsed mk [] = None"
| "try_parsed mk (None # fs) = try_parsed mk fs"
| "try_parsed mk (Some t # fs) =
     (case mk t of Some i \<Rightarrow> Some (Aware i) | None \<Rightarrow> try_parsed mk fs)"

definition date_formats :: "string list" where
  "date_formats =
     [''%a, %d %b %Y %H:%M:%S %z'', ''%Y-%m-%dT%H:%M:%S%z'', ''%Y-%m-%dT%H:%M:%SZ'',
      ''%a, %d %b %Y %H:%M:%S'']"

text \<open>
  The loop over the formats: the first one that parses wins, made aware when it is
  naive; a \<open>ValueError\<close> moves on to the next format, any other exception leaves the
  loop.
\<close>

fun try_formats ::
  "(string \<Rightarrow> string \<Rightarrow> exn + datetime) \<Rightarrow> string \<Rightarrow> string list \<Rightarrow> exn + datetime option" where
  "try_formats strp s [] = Inr None"
| "try_formats strp s (fmt # fmts) =
     (case strp s fmt of
        Inr (Naive w) \<Rightarrow> Inr (Some (Aware w))
      | Inr (Aware i) \<Rightarrow> Inr (Some (Aware i))
      | Inl e \<Rightarrow> if is_ValueError e then try_formats strp s fmts else Inl e)"

text \<open>
  The second loop, over the values of \<open>published\<close>, \<open>updated\<close> and \<open>created\<close>; its
  \<open>except Exception\<close> moves on to the next field.
\<close>

fun try_strings ::
  "(string \<Rightarrow> string \<Rightarrow> exn + datetime) \<Rightarrow> string option list \<Rightarrow> datetime option" where
  "try_strings strp [] = None"
| "try_strings strp (None # fs) = try_strings strp fs"
| "try_strings strp (Some s # fs) =
     (if s = [] then try_strings strp fs
      else (case try_formats strp (strip_tz_abbrev s) date_formats of
              Inr (Some dt) \<Rightarrow> Some dt
            | Inr None \<Rightarrow> try_strings strp fs
            | Inl e \<Rightarrow> try_strings strp fs))"

text \<open>
  \<open>_parse_published_date\<close>, at call count \<open>n\<close>: the timestamp, and the call count
  afterwards (the clock is read only on the last resort).
\<close>

definition parsed_fields :: "entry \<Rightarrow> struct_time option list" where
  "parsed_fields e = [published_parsed e, updated_parsed e, created_parsed e]"

definition string_fields :: "entry \<Rightarrow> string option list" where
  "string_fields e = [entry_published e, entry_updated e, entry_created e]"

definition parse_published_date :: "fetcher_env \<Rightarrow> nat \<Rightarrow> entry \<Rightarrow> datetime \<times> nat" where
  "parse_published_date env n e =
     (case try_parsed (utc_datetime env) (parsed_fields e) of
        Some dt \<Rightarrow> (dt, n)
      | None \<Rightarrow>
          (case try_strings (strptime env) (string_fields e) of
             Some dt \<Rightarrow> (dt, n)
           | None \<Rightarrow> (Aware (now_utc env n), Suc n)))"

text \<open>
  The candidate a field gives: the string itself, or the \<open>value\<close> of the first dict of
  a non-empty list (\<open>""\<close> when absent); an empty list is as false as an empty string.
\<close>

fun candidate :: "field_value \<Rightarrow> string" where
  "candidate (Text s) = s"
| "candidate (Parts []) = []"
| "candidate (Parts (None # ps)) = []"
| "candidate (Parts (Some v # ps)) = v"

text \<open>The loop of \<open>_extract_summary\<close> over the values of the three fields.\<close>

fun extract_from :: "field_value option list \<Rightarrow> string" where
  "extract_from [] = []"
| "extract_from (None # fs) = extract_from fs"
| "extract_from (Some v # fs) =
     (if candidate v \<noteq> []
      then (let clean = strip_tags (candidate v)
            in if length clean > 500 then take 500 clean else clean)
      else extract_from fs)"

definition summary_fields :: "entry \<Rightarrow> field_value option list" where
  "summary_fields e = [entry_summary e, entry_description e, entry_content e]"

definition extract_summary :: "entry \<Rightarrow> string" where
  "extract_summary e = extract_from (summary_fields e)"

subsection \<open>Collecting articles\<close>

text \<open>
  The deduplication, written out in \<open>fetch_rss_feed\<close> and in \<open>fetch_news_api\<close>: the
  article to append, if any, and the state afterwards.
\<close>

definition dedup :: "article \<Rightarrow> fetcher_state \<Rightarrow> article option \<times> fetcher_state" where
  "dedup a st =
     (if article_id a \<notin> seen_ids st
      then (Some a, st\<lparr>seen_ids := insert (article_id a) (seen_ids st)\<rparr>)
      else (None, st))"

text \<open>
  A \<open>for\<close> loop inside a \<open>try\<close> whose handler only logs: the body either raises, which
  ends the loop, or appends at most one article. The articles appended, in order, and
  the state afterwards.
\<close>

fun append_loop ::
  "('a \<Rightarrow> fetcher_state \<Rightarrow> (exn + article option) \<times> fetcher_state) \<Rightarrow> 'a list \<Rightarrow> fetcher_state
     \<Rightarrow> article list \<times> fetcher_state" where
  "append_loop body [] st = ([], st)"
| "append_loop body (x # xs) st =
     (case body x st of
        (Inl e, st1) \<Rightarrow> ([], st1)
      | (Inr None, st1) \<Rightarrow> append_loop body xs st1
      | (Inr (Some a), st1) \<Rightarrow>
          (case append_loop body xs st1 of (as, st2) \<Rightarrow> (a # as, st2)))"

text \<open>\<open>d.get(k, "")\<close> for a key whose value is a string.\<close>

definition or_empty :: "string option \<Rightarrow> string" where
  "or_empty v = (case v of None \<Rightarrow> [] | Some s \<Rightarrow> s)"

text \<open>The body of the loop of \<open>fetch_rss_feed\<close>.\<close>

definition rss_entry ::
  "fetcher_env \<Rightarrow> string \<Rightarrow> string \<Rightarrow> entry \<Rightarrow> fetcher_state
     \<Rightarrow> (exn + article option) \<times> fetcher_state" where
  "rss_entry env fname tname e st =
     (let t = strip (or_empty (entry_title e)); l = or_empty (entry_link e)
      in if t = [] \<or> l = [] then (Inr None, st)
         else (case clean_google_news_url env l of
                 Inl ex \<Rightarrow> (Inl ex, st)
               | Inr l' \<Rightarrow>
                   (case parse_published_date env (calls st) e of
                      (p, n) \<Rightarrow>
                        (case dedup (Article (md5 env) t l' fname p (extract_summary e) [] tname [])
                                (st\<lparr>calls := n\<rparr>) of
                           (r, st1) \<Rightarrow> (Inr r, st1)))))"

text \<open>\<open>fetch_rss_feed\<close>: at most 20 entries; an exception of the parser gives no article.\<close>

definition fetch_rss_feed ::
  "fetcher_env \<Rightarrow> string \<Rightarrow> string \<Rightarrow> string \<Rightarrow> fetcher_state \<Rightarrow> article list \<times> fetcher_state" where
  "fetch_rss_feed env url fname tname st =
     (case feedparser_parse env (calls st) url of
        Inl e \<Rightarrow> ([], st\<lparr>calls := Suc (calls st)\<rparr>)
      | Inr entries \<Rightarrow>
          append_loop (rss_entry env fname tname) (take 20 entries)
            (st\<lparr>calls := Suc (calls st)\<rparr>))"

text \<open>
  The fields of a search result as the loop of \<open>fetch_news_api\<close> reads them. A
  \<open>null\<close> has no \<open>strip\<close> and no \<open>get\<close> (\<open>AttributeError\<close>) and cannot be sliced
  (\<open>TypeError\<close>).
\<close>

definition get_title :: "api_item \<Rightarrow> exn + string" where
  "get_title item =
     (case item_title item of
        Absent \<Rightarrow> Inr (strip []) | Null \<Rightarrow> Inl AttributeError | Present s \<Rightarrow> Inr (strip s))"

text \<open>\<open>item.get("url", "")\<close>; a \<open>null\<close> is as false as the empty string.\<close>

definition get_url :: "api_item \<Rightarrow> string" where
  "get_url item = (case item_url item of Present s \<Rightarrow> s | _ \<Rightarrow> [])"

text \<open>
  The publication date: the clock's reading \<open>now\<close>, replaced by the parsed
  \<open>publishedAt\<close> when that is present and parses; a \<open>ValueError\<close> keeps \<open>now\<close>.
\<close>

definition get_published :: "fetcher_env \<Rightarrow> datetime \<Rightarrow> api_item \<Rightarrow> exn + datetime" where
  "get_published env now item =
     (case item_publishedAt item of
        Present s \<Rightarrow>
          if s = [] then Inr now
          else (case fromisoformat env (replace_Z s) of
                  Inr dt \<Rightarrow> Inr dt
                | Inl e \<Rightarrow> if is_ValueError e then Inr now else Inl e)
      | _ \<Rightarrow> Inr now)"

definition get_source :: "api_item \<Rightarrow> exn + string" where
  "get_source item =
     (case item_source item of
        Absent \<Rightarrow> Inr ''NewsAPI''
      | Null \<Rightarrow> Inl AttributeError
      | Present None \<Rightarrow> Inr ''NewsAPI''
      | Present (Some s) \<Rightarrow> Inr s)"

definition get_description :: "api_item \<Rightarrow> exn + string" where
  "get_description item =
     (case item_description item of
        Absent \<Rightarrow> Inr [] | Null \<Rightarrow> Inl TypeError | Present s \<Rightarrow> Inr (take 500 s))"

text \<open>The body of the loop of \<open>fetch_news_api\<close>.\<close>

definition news_item ::
  "fetcher_env \<Rightarrow> string \<Rightarrow> api_item \<Rightarrow> fetcher_state \<Rightarrow> (exn + article option) \<times> fetcher_state" where
  "news_item env tname item st =
     (case get_title item of
        Inl e \<Rightarrow> (Inl e, st)
      | Inr t \<Rightarrow>
          if t = [] \<or> get_url item = [] \<or> t = ''[Removed]'' then (Inr None, st)
          else
            (let now = Aware (now_utc env (calls st)); st1 = st\<lparr>calls := Suc (calls st)\<rparr>
             in case get_published env now item of
                  Inl e \<Rightarrow> (Inl e, st1)
                | Inr p \<Rightarrow>
                    (case get_source item of
                       Inl e \<Rightarrow> (Inl e, st1)
                     | Inr src \<Rightarrow>
                         (case get_description item of
                            Inl e \<Rightarrow> (Inl e, st1)
                          | Inr d \<Rightarrow>
                              (case dedup (Article (md5 env) t (get_url item) src p d [] tname [])
                                      st1 of
                                 (r, st2) \<Rightarrow> (Inr r, st2))))))"

text \<open>
  \<open>fetch_news_api\<close>: nothing without a key; otherwise one request, whose failure gives
  no article. An absent \<open>articles\<close> is the empty list; iterating a \<open>null\<close> raises.
\<close>

definition fetch_news_api ::
  "fetcher_env \<Rightarrow> string option \<Rightarrow> string list \<Rightarrow> string \<Rightarrow> fetcher_state
     \<Rightarrow> article list \<times> fetcher_state" where
  "fetch_news_api env news_api_key kws tname st =
     (if or_empty news_api_key = [] then ([], st)
      else (case newsapi_get env (calls st) (join '' OR '' (take 3 kws))
                   (or_empty news_api_key) of
              Inl e \<Rightarrow> ([], st\<lparr>calls := Suc (calls st)\<rparr>)
            | Inr Absent \<Rightarrow> ([], st\<lparr>calls := Suc (calls st)\<rparr>)
            | Inr Null \<Rightarrow> ([], st\<lparr>calls := Suc (calls st)\<rparr>)
            | Inr (Present items) \<Rightarrow>
                append_loop (news_item env tname) items (st\<lparr>calls := Suc (calls st)\<rparr>)))"

subsection \<open>\<open>fetch_all\<close>\<close>

text \<open>
  \<open>timedelta(days=k)\<close> in microseconds; it raises \<open>OverflowError\<close> beyond 999999999
  days. \<open>datetime - timedelta\<close> raises \<open>OverflowError\<close> outside the years 1 to 9999.
\<close>

definition timedelta_days :: "int \<Rightarrow> exn + int" where
  "timedelta_days k =
     (if \<bar>k\<bar> \<le> 999999999 then Inr (k * 86400000000) else Inl OverflowError)"

definition datetime_min :: int where
  "datetime_min = - 62135596800000000"

definition datetime_max :: int where
  "datetime_max = 253402300799999999"

definition cutoff_date :: "int \<Rightarrow> int \<Rightarrow> exn + int" where
  "cutoff_date now kd =
     (case timedelta_days kd of
        Inl e \<Rightarrow> Inl e
      | Inr d \<Rightarrow>
          if datetime_min \<le> now - d \<and> now - d \<le> datetime_max then Inr (now - d)
          else Inl OverflowError)"

text \<open>The loop over the feeds of a topic; a feed without a URL is skipped.\<close>

fun fetch_feeds ::
  "fetcher_env \<Rightarrow> string \<Rightarrow> feed_cfg list \<Rightarrow> fetcher_state \<Rightarrow> article list \<times> fetcher_state" where
  "fetch_feeds env tname [] st = ([], st)"
| "fetch_feeds env tname (f # fs) st =
     (if or_empty (feed_url f) \<noteq> []
      then (case fetch_rss_feed env (or_empty (feed_url f))
                   (case feed_name f of None \<Rightarrow> ''Unknown'' | Some s \<Rightarrow> s) tname st of
              (as, st1) \<Rightarrow>
                (case fetch_feeds env tname fs st1 of (bs, st2) \<Rightarrow> (as @ bs, st2)))
      else fetch_feeds env tname fs st)"

text \<open>
  The comprehension \<open>[a for a in topic_articles if a.published >= cutoff_date]\<close>; the
  comparison raises on a naive \<open>published\<close>, outside every \<open>try\<close>.
\<close>

fun filter_recent :: "datetime \<Rightarrow> article list \<Rightarrow> exn + article list" where
  "filter_recent c [] = Inr []"
| "filter_recent c (a # as) =
     (case datetime_ge (published a) c of
        Inl e \<Rightarrow> Inl e
      | Inr b \<Rightarrow>
          (case filter_recent c as of
             Inl e \<Rightarrow> Inl e
           | Inr r \<Rightarrow> Inr (if b then a # r else r)))"

text \<open>The instant of an aware datetime (the reading of a naive one).\<close>

fun instant :: "datetime \<Rightarrow> int" where
  "instant (Aware i) = i"
| "instant (Naive w) = w"

text \<open>
  \<open>xs.sort(key=lambda x: x.published, reverse=True)\<close>, on a list that passed the
  filter, whose dates are all aware: Python's sort is stable also when reversed, which
  is the stable sort on the negated instants.
\<close>

definition sort_newest_first :: "article list \<Rightarrow> article list" where
  "sort_newest_first xs = sort_key (\<lambda>a. - instant (published a)) xs"

text \<open>\<open>xs[:n]\<close>; a negative \<open>n\<close> counts from the end.\<close>

definition slice_to :: "int \<Rightarrow> 'a list \<Rightarrow> 'a list" where
  "slice_to n xs = (if 0 \<le> n then take (nat n) xs else take (nat (int (length xs) + n)) xs)"

text \<open>
  One iteration of the loop over the topics: the key and the list stored in
  \<open>results\<close>, and the state afterwards.
\<close>

definition fetch_topic ::
  "fetcher_env \<Rightarrow> string option \<Rightarrow> datetime \<Rightarrow> int \<Rightarrow> topic_cfg \<Rightarrow> fetcher_state
     \<Rightarrow> exn + (string \<times> article list) \<times> fetcher_state" where
  "fetch_topic env news_api_key cutoff max_articles tp st =
     (let tname = (case topic_name tp of None \<Rightarrow> ''Unknown'' | Some s \<Rightarrow> s)
      in case fetch_feeds env tname (rss_feeds tp) st of
           (as, st1) \<Rightarrow>
             (case (if length as < 5 \<and> topic_keywords tp \<noteq> []
                    then (case fetch_news_api env news_api_key (topic_keywords tp) tname st1 of
                            (bs, st2) \<Rightarrow> (as @ bs, st2))
                    else (as, st1)) of
                (topic_articles, st3) \<Rightarrow>
                  (case filter_recent cutoff topic_articles of
                     Inl e \<Rightarrow> Inl e
                   | Inr recent \<Rightarrow>
                       Inr ((tname, slice_to max_articles (sort_newest_first recent)), st3))))"

fun fetch_topics ::
  "fetcher_env \<Rightarrow> string option \<Rightarrow> datetime \<Rightarrow> int \<Rightarrow> topic_cfg list
     \<Rightarrow> (string \<times> article list) list \<Rightarrow> fetcher_state
     \<Rightarrow> exn + (string \<times> article list) list \<times> fetcher_state" where
  "fetch_topics env news_api_key cutoff max_articles [] results st = Inr (results, st)"
| "fetch_topics env news_api_key cutoff max_articles (tp # tps) results st =
     (case fetch_topic env news_api_key cutoff max_articles tp st of
        Inl e \<Rightarrow> Inl e
      | Inr ((tname, arts), st1) \<Rightarrow>
          fetch_topics env news_api_key cutoff max_articles tps
            (AList.update tname arts results) st1)"

text \<open>The cutoff that \<open>fetch_all\<close> computes first, from the clock and the settings.\<close>

definition fetch_cutoff :: "fetcher_env \<Rightarrow> topics_config \<Rightarrow> fetcher_state \<Rightarrow> exn + int" where
  "fetch_cutoff env cfg st =
     cutoff_date (now_utc env (calls st)) (case keep_days cfg of None \<Rightarrow> 2 | Some k \<Rightarrow> k)"

definition fetch_all ::
  "fetcher_env \<Rightarrow> topics_config \<Rightarrow> string option \<Rightarrow> fetcher_state
     \<Rightarrow> exn + (string \<times> article list) list \<times> fetcher_state" where
  "fetch_all env cfg news_api_key st =
     (case fetch_cutoff env cfg st of
        Inl e \<Rightarrow> Inl e
      | Inr c \<Rightarrow>
          fetch_topics env news_api_key (Aware c)
            (case max_articles_per_topic cfg of None \<Rightarrow> 10 | Some m \<Rightarrow> m)
            (topics cfg) [] (st\<lparr>calls := Suc (calls st)\<rparr>))"

section \<open>main.py\<close>

text \<open>\<open>sum(len(articles) for articles in articles_by_topic.values())\<close>.\<close>

definition total_articles :: "(string \<times> article list) list \<Rightarrow> nat" where
  "total_articles results = sum_list (map (\<lambda>kv. length (snd kv)) results)"

text \<open>
  Step 1 of \<open>main\<close>: a \<open>NewsFetcher\<close> is built (its constructor loads the topics and
  starts with an empty set of seen ids), \<open>fetch_all\<close> runs, and the total is logged.
  An exception of either ends the run.
\<close>

definition fetch_step ::
  "fetcher_env \<Rightarrow> string \<Rightarrow> string option \<Rightarrow> nat
     \<Rightarrow> exn + (string \<times> article list) list \<times> nat" where
  "fetch_step env topics_file news_api_key n =
     (case load_topics env topics_file of
        Inl e \<Rightarrow> Inl e
      | Inr cfg \<Rightarrow>
          (case fetch_all env cfg news_api_key \<lparr>seen_ids = {}, calls = n\<rparr> of
             Inl e \<Rightarrow> Inl e
           | Inr (results, st) \<Rightarrow> Inr (results, total_articles results)))"

section \<open>Parts of the loops, named for the statements\<close>

text \<open>
  Two parts of the loop body of \<open>fetch_all\<close>, named: the key under which a topic is
  stored, and the articles the topic has before the filter (the feeds, then the search
  API when there are fewer than five and the topic has keywords), with the state
  afterwards.
\<close>

definition topic_label :: "topic_cfg \<Rightarrow> string" where
  "topic_label tp = (case topic_name tp of None \<Rightarrow> ''Unknown'' | Some s \<Rightarrow> s)"

definition collect_topic ::
  "fetcher_env \<Rightarrow> string option \<Rightarrow> topic_cfg \<Rightarrow> fetcher_state \<Rightarrow> article list \<times> fetcher_state" where
  "collect_topic env news_api_key tp st =
     (case fetch_feeds env (topic_label tp) (rss_feeds tp) st of
        (as, st1) \<Rightarrow>
          if length as < 5 \<and> topic_keywords tp \<noteq> []
          then (case fetch_news_api env news_api_key (topic_keywords tp) (topic_label tp) st1 of
                  (bs, st2) \<Rightarrow> (as @ bs, st2))
          else (as, st1))"

text \<open>
  An entry reaches the deduplication when its stripped title and its link are not
  empty and cleaning the link does not raise; it ends the loop when cleaning raises.
\<close>

definition entry_usable :: "fetcher_env \<Rightarrow> entry \<Rightarrow> bool" where
  "entry_usable env e =
     (strip (or_empty (entry_title e)) \<noteq> [] \<and> or_empty (entry_link e) \<noteq> []
      \<and> (case clean_google_news_url env (or_empty (entry_link e)) of
            Inl ex \<Rightarrow> False | Inr l \<Rightarrow> True))"

definition entry_raises :: "fetcher_env \<Rightarrow> entry \<Rightarrow> bool" where
  "entry_raises env e =
     (strip (or_empty (entry_title e)) \<noteq> [] \<and> or_empty (entry_link e) \<noteq> []
      \<and> (case clean_google_news_url env (or_empty (entry_link e)) of
            Inl ex \<Rightarrow> True | Inr l \<Rightarrow> False))"

text \<open>
  The Article that the loop of \<open>fetch_rss_feed\<close> builds from an entry at call count
  \<open>n\<close>, and its id.
\<close>

definition rss_article :: "fetcher_env \<Rightarrow> string \<Rightarrow> string \<Rightarrow> entry \<Rightarrow> nat \<Rightarrow> article" where
  "rss_article env fname tname e n =
     Article (md5 env) (strip (or_empty (entry_title e))) (or_empty (entry_link e)) fname
       (fst (parse_published_date env n e)) (extract_summary e) [] tname []"

definition entry_id :: "fetcher_env \<Rightarrow> entry \<Rightarrow> string" where
  "entry_id env e =
     take 12 (md5 env (strip (or_empty (entry_title e)) @ or_empty (entry_link e)))"

text \<open>
  The Article that the loop of \<open>fetch_news_api\<close> builds from a search result at call
  count \<open>n\<close>; \<open>None\<close> when reading a field raises.
\<close>

definition news_article :: "fetcher_env \<Rightarrow> string \<Rightarrow> api_item \<Rightarrow> nat \<Rightarrow> article option" where
  "news_article env tname item n =
     (case get_title item of
        Inl e \<Rightarrow> None
      | Inr t \<Rightarrow>
          (case get_published env (Aware (now_utc env n)) item of
             Inl e \<Rightarrow> None
           | Inr p \<Rightarrow>
               (case get_source item of
                  Inl e \<Rightarrow> None
                | Inr src \<Rightarrow>
                    (case get_description item of
                       Inl e \<Rightarrow> None
                     | Inr d \<Rightarrow> Some (Article (md5 env) t (get_url item) src p d [] tname [])))))"

text \<open>
  A search result reaches the construction of the Article when its title can be read
  and title and URL pass the test of the loop. It ends the loop when its title cannot
  be read or when, having passed the test, one of its other fields raises; whether a
  field raises depends neither on the topic nor on the clock.
\<close>

definition item_usable :: "api_item \<Rightarrow> bool" where
  "item_usable item =
     (case get_title item of
        Inl e \<Rightarrow> False
      | Inr t \<Rightarrow> t \<noteq> [] \<and> get_url item \<noteq> [] \<and> t \<noteq> ''[Removed]'')"

definition item_raises :: "fetcher_env \<Rightarrow> api_item \<Rightarrow> bool" where
  "item_raises env item =
     (case get_title item of
        Inl e \<Rightarrow> True
      | Inr t \<Rightarrow> item_usable item \<and> news_article env [] item 0 = None)"

section \<open>Conditions on the collaborators\<close>




text \<open>
  A string field yields no date when it is empty or when the loop over the formats ends
  without a parsed date.
\<close>

definition no_date :: "(string \<Rightarrow> string \<Rightarrow> exn + datetime) \<Rightarrow> string \<Rightarrow> bool" where
  "no_date strp s =
     (s = [] \<or>
      (case try_formats strp (strip_tz_abbrev s) date_formats of
         Inr (Some dt) \<Rightarrow> False | _ \<Rightarrow> True))"

text \<open>
  \<open>adds st arts st'\<close>: the articles \<open>arts\<close> have pairwise different ids, none of them
  seen in \<open>st\<close>, and \<open>st'\<close> has seen these ids besides those of \<open>st\<close>.
\<close>

definition adds :: "fetcher_state \<Rightarrow> article list \<Rightarrow> fetcher_state \<Rightarrow> bool" where
  "adds st arts st' =
     (distinct (map article_id arts)
      \<and> set (map article_id arts) \<inter> seen_ids st = {}
      \<and> seen_ids st' = seen_ids st \<union> set (map article_id arts))"

text \<open>
  A loop body deduplicates when it appends only an article whose id is new, records
  that id, and leaves the seen ids alone otherwise.
\<close>

definition dedup_body ::
  "('a \<Rightarrow> fetcher_state \<Rightarrow> (exn + article option) \<times> fetcher_state) \<Rightarrow> bool" where
  "dedup_body body =
     (\<forall>x st r st'. body x st = (r, st') \<longrightarrow>
        (case r of
           Inr (Some a) \<Rightarrow>
             article_id a \<notin> seen_ids st \<and> seen_ids st' = insert (article_id a) (seen_ids st)
         | _ \<Rightarrow> seen_ids st' = seen_ids st))"




section \<open>Example values\<close>

definition art1 :: article where
  "art1 = Article (\<lambda>s. s) ''Lakers win'' ''http://x/1'' ''ESPN'' (Aware 1000) ''Recap'' [] ''NBA'' []"

definition art2 :: article where
  "art2 = Article (\<lambda>s. s) ''Trade news'' ''http://x/2'' ''ESPN'' (Aware 2000) ''Rumour'' [] ''NBA'' []"



definition no_content_client :: summarizer_env where
  "no_content_client =
     \<lparr>chat_create = (\<lambda>n batch. Reply [None]),
      json_loads = (\<lambda>s. if s = ''{}'' then Inr (JObj []) else Inl JSONDecodeError)\<rparr>"

text \<open>
  A world for the fetcher: the clock stands at 2024-01-02 00:00 UTC, the one feed has
  two entries of 2024-01-01 and one of 2023-01-01, the search API has no result and
  the topics file is missing. \<open>md5\<close> is replaced by the identity.
\<close>

definition tm_of_year :: "32 word \<Rightarrow> struct_time" where
  "tm_of_year y =
     \<lparr>tm_year = y, tm_mon = 1, tm_mday = 1, tm_hour = 0, tm_min = 0, tm_sec = 0,
      tm_wday = 0, tm_yday = 1, tm_isdst = 0\<rparr>"

definition entry_of :: "string \<Rightarrow> string \<Rightarrow> struct_time option \<Rightarrow> string option \<Rightarrow> entry" where
  "entry_of t l tm s =
     \<lparr>entry_title = Some t, entry_link = Some l, published_parsed = tm,
      updated_parsed = None, created_parsed = None, entry_published = s,
      entry_updated = None, entry_created = None,
      entry_summary = Some (Text ''<p>Recap</p>''), entry_description = None,
      entry_content = None\<rparr>"

definition feed_env :: fetcher_env where
  "feed_env =
     \<lparr>md5 = (\<lambda>s. s),
      utc_datetime = (\<lambda>t. if tm_year t = 2024 then Some 1704067200000000
                          else if tm_year t = 2023 then Some 1672531200000000 else None),
      strptime = (\<lambda>s f. if s = ''2024-01-01T06:00:00'' \<and> f = ''%Y-%m-%dT%H:%M:%SZ''
                         then Inr (Naive 1704088800000000) else Inl ValueError),
      fromisoformat = (\<lambda>s. Inl ValueError),
      urlparse = (\<lambda>u. None),
      now_utc = (\<lambda>n. 1704153600000000),
      feedparser_parse = (\<lambda>n u. if u = ''http://feed/a''
                                 then Inr [entry_of ''Lakers win'' ''http://x/1'' (Some (tm_of_year 2024)) None,
                                           entry_of ''Trade news'' ''http://x/2'' (Some (tm_of_year 2024)) None,
                                           entry_of ''Last season'' ''http://x/3'' (Some (tm_of_year 2023)) None]
                                 else Inl (OtherError ''URLError'')),
      newsapi_get = (\<lambda>n q k. Inr (Present [])),
      open_read = (\<lambda>p. Inl FileNotFoundError),
      yaml_safe_load = (\<lambda>s. Inl (OtherError ''YAMLError''))\<rparr>"

text \<open>The same world with a topics file that exists and cannot be read.\<close>

definition locked_env :: fetcher_env where
  "locked_env = feed_env\<lparr>open_read := (\<lambda>p. Inl PermissionError)\<rparr>"

definition nba_topic :: topic_cfg where
  "nba_topic =
     \<lparr>topic_name = Some ''NBA'', topic_keywords = [],
      rss_feeds = [\<lparr>feed_url = Some ''http://feed/a'', feed_name = Some ''A''\<rparr>]\<rparr>"

text \<open>
  Configurations with the one topic: a negative maximum, a maximum of one with the
  default window, and the topic twice under two names.
\<close>

definition neg_cfg :: topics_config where
  "neg_cfg = \<lparr>topics = [nba_topic], max_articles_per_topic = Some (- 1), keep_days = Some 2\<rparr>"

definition two_cfg :: topics_config where
  "two_cfg =
     \<lparr>topics = [nba_topic, nba_topic\<lparr>topic_name := Some ''Lakers''\<rparr>],
      max_articles_per_topic = None, keep_days = None\<rparr>"

definition one_cfg :: topics_config where
  "one_cfg = \<lparr>topics = [nba_topic], max_articles_per_topic = Some 1, keep_days = None\<rparr>"



text \<open>
  A configuration whose window of one day puts the cutoff on the date of the two
  recent entries; a world whose topics file is not valid YAML; a world whose search
  API has three results, one of them already in the feed, one removed; and a
  configuration whose topic has keywords.
\<close>

definition boundary_cfg :: topics_config where
  "boundary_cfg = \<lparr>topics = [nba_topic], max_articles_per_topic = Some 5, keep_days = Some 1\<rparr>"

definition garbled_env :: fetcher_env where
  "garbled_env = feed_env\<lparr>open_read := (\<lambda>p. Inr ''topics: ['')\<rparr>"

definition news_env :: fetcher_env where
  "news_env =
     feed_env\<lparr>newsapi_get := (\<lambda>n q k.
        if q = ''lakers OR nba'' \<and> k = ''key''
        then Inr (Present
               [\<lparr>item_title = Present ''Lakers win'', item_url = Present ''http://x/1'',
                 item_source = Present (Some ''Wire''), item_publishedAt = Null,
                 item_description = Present ''Again''\<rparr>,
                \<lparr>item_title = Present '' Injury report '', item_url = Present ''http://y/9'',
                 item_source = Absent, item_publishedAt = Present ''2024-01-01T09:00:00Z'',
                 item_description = Absent\<rparr>,
                \<lparr>item_title = Present ''[Removed]'', item_url = Present ''http://y/0'',
                 item_source = Absent, item_publishedAt = Absent,
                 item_description = Absent\<rparr>])
        else Inl (OtherError ''HTTPStatusError''))\<rparr>"

definition news_cfg :: topics_config where
  "news_cfg =
     \<lparr>topics = [nba_topic\<lparr>topic_keywords := [''lakers'', ''nba'']\<rparr>],
      max_articles_per_topic = None, keep_days = None\<rparr>"

definition item_id :: "fetcher_env \<Rightarrow> api_item \<Rightarrow> string" where
  "item_id env item =
     (case get_title item of Inl e \<Rightarrow> [] | Inr t \<Rightarrow> take 12 (md5 env (t @ get_url item)))"

section \<open>Properties of Article\<close>

text \<open>
  C4. Two Articles built with the default empty id from the same title and the same
  link have the same id, whatever their other attributes are: the id is the first 12
  characters of the md5 hex digest of title + link.
\<close>

theorem article_id_deterministic:
  "article_id (Article h t l s1 p1 sm1 ai1 tp1 []) = article_id (Article h t l s2 p2 sm2 ai2 tp2 [])
   \<and> article_id (Article h t l s1 p1 sm1 ai1 tp1 []) = take 12 (h (t @ l))
   \<and> length (article_id (Article h t l s1 p1 sm1 ai1 tp1 [])) = min 12 (length (h (t @ l)))"
  by (simp add: Article_def min.commute)

text \<open>
  C10. An Article built with an explicit, non-empty id keeps that id: the fingerprint
  of title + link is computed only for the empty id. So two Articles with the same
  title and link that are given different non-empty ids have different ids.
\<close>

theorem explicit_id_unchanged:
  "i \<noteq> [] \<Longrightarrow>
     article_id (Article h t l s p sm ai tp i) = i
     \<and> (j \<noteq> [] \<and> i \<noteq> j \<longrightarrow>
          article_id (Article h t l s p sm ai tp i) \<noteq> article_id (Article h t l s' p' sm' ai' tp' j))"
  by (simp add: Article_def)

theorem explicit_id_unchanged_witness:
  "''abc'' \<noteq> []
   \<and> article_id (Article (\<lambda>s. s) ''T'' ''L'' ''S'' (Aware 0) [] [] [] ''abc'') = ''abc''
   \<and> article_id (Article (\<lambda>s. s) ''T'' ''L'' ''S'' (Aware 0) [] [] [] ''abc'')
       \<noteq> article_id (Article (\<lambda>s. s) ''T'' ''L'' ''S2'' (Aware 5) [] [] [] ''abd'')"
  using explicit_id_unchanged [where i = "''abc''" and j = "''abd''" and h = "\<lambda>s. s"
      and t = "''T''" and l = "''L''" and s = "''S''" and p = "Aware 0" and sm = "[]"
      and ai = "[]" and tp = "[]" and s' = "''S2''" and p' = "Aware 5" and sm' = "[]"
      and ai' = "[]" and tp' = "[]"]
  by (simp add: Article_def)

section \<open>Properties of the summarizer\<close>

subsection \<open>Elements with an index out of range\<close>

lemma parse_items_append:
  "parse_items batch (xs @ ys) =
     (case parse_items batch xs of
        (out, Some e) \<Rightarrow> (out, Some e)
      | (out, None) \<Rightarrow> (case parse_items batch ys of (out', r) \<Rightarrow> (out @ out', r)))"
  by (induction xs) (auto split: sum.splits option.splits prod.splits)

text \<open>
  C6. A response element whose index, less one, is not within \<open>0 <= idx < len(batch)\<close>
  (for an integer index \<open>k\<close>: \<open>k - 1 < 0\<close> or \<open>k - 1 >= len(batch)\<close>) is discarded
  without an exception, and the loop over the response gives the same articles and the
  same outcome as it gives on the response without that element.
\<close>

theorem out_of_range_index_discarded:
  assumes "index_minus_one (dict_get kvs ''index'' (JInt 1)) = Inr idx"
      and "\<not> idx_in_range idx (length batch)"
  shows "summarize_item batch (JObj kvs) = Inr None
         \<and> parse_items batch (pre @ JObj kvs # post) = parse_items batch (pre @ post)
         \<and> parse_response batch (JObj [(''articles'', JArr (pre @ JObj kvs # post))])
             = parse_response batch (JObj [(''articles'', JArr (pre @ post))])"
proof -
  have item: "summarize_item batch (JObj kvs) = Inr None"
    using assms by simp
  have step: "parse_items batch (JObj kvs # post) = parse_items batch post"
    by (simp only: parse_items.simps item sum.case option.case)
  have items: "parse_items batch (pre @ JObj kvs # post) = parse_items batch (pre @ post)"
    by (simp only: parse_items_append step)
  have "parse_response batch (JObj [(''articles'', JArr (pre @ JObj kvs # post))])
          = parse_items batch (pre @ JObj kvs # post)"
    by (simp add: dict_get_def)
  moreover have "parse_response batch (JObj [(''articles'', JArr (pre @ post))])
          = parse_items batch (pre @ post)"
    by (simp add: dict_get_def)
  ultimately show ?thesis
    using item items by (simp only: simp_thms)
qed

theorem out_of_range_index_discarded_witness:
  "index_minus_one (dict_get [(''index'', JInt 7)] ''index'' (JInt 1)) = Inr (PInt 6)
   \<and> \<not> idx_in_range (PInt 6) (length [art1, art2])
   \<and> summarize_item [art1, art2] (JObj [(''index'', JInt 7)]) = Inr None
   \<and> parse_items [art1, art2]
        ([JObj [(''index'', JInt 1)]] @ JObj [(''index'', JInt 7)] # [JObj [(''index'', JInt 2)]])
       = parse_items [art1, art2] ([JObj [(''index'', JInt 1)]] @ [JObj [(''index'', JInt 2)]])"
proof -
  have a: "index_minus_one (dict_get [(''index'', JInt 7)] ''index'' (JInt 1)) = Inr (PInt 6)"
    by (simp add: dict_get_def)
  have b: "\<not> idx_in_range (PInt 6) (length [art1, art2])" by simp
  from out_of_range_index_discarded [OF a b] a b show ?thesis by blast
qed

subsection \<open>Batches\<close>

lemma batches_Nil: "batches n [] = []"
  by (simp add: batches.simps)

lemma batches_Cons:
  "0 < n \<Longrightarrow> xs \<noteq> [] \<Longrightarrow> batches n xs = take n xs # batches n (drop n xs)"
  by (subst batches.simps) simp




















text \<open>
  C2. A response whose content is missing (\<open>None\<close>) or empty takes neither handler:
  the batch's two articles get no summarized article at all, where the fallback of
  the two handlers gives one per article.
\<close>

theorem empty_content_appends_nothing:
  "summarize_batch no_content_client 0 [art1, art2] 5 = Inr ([], 1)
   \<and> summarize_batch (no_content_client\<lparr>chat_create := (\<lambda>n batch. Reply [Some []])\<rparr>) 0
         [art1, art2] 5 = Inr ([], 1)"
  by (simp add: summarize_batch_def batches_Cons batches_Nil summarize_one_batch_def
      no_content_client_def)

section \<open>Properties of the fetcher\<close>

subsection \<open>The published date\<close>

lemma try_parsed_first:
  assumes "fs = pre @ Some t # post" and "\<forall>t'. Some t' \<in> set pre \<longrightarrow> mk t' = None"
    and "mk t = Some i"
  shows "try_parsed mk fs = Some (Aware i)"
  using assms
proof (induction pre arbitrary: fs)
  case Nil
  then show ?case by simp
next
  case (Cons p pre)
  then show ?case by (cases p) simp_all
qed

lemma try_parsed_none:
  "(\<forall>t. Some t \<in> set fs \<longrightarrow> mk t = None) \<Longrightarrow> try_parsed mk fs = None"
  by (induction mk fs rule: try_parsed.induct) simp_all

lemma try_formats_first:
  assumes "k < length fmts" and "strp s (fmts ! k) = Inr d"
    and "\<forall>j<k. \<exists>ex. strp s (fmts ! j) = Inl ex \<and> is_ValueError ex"
  shows "try_formats strp s fmts = Inr (Some (Aware (instant d)))"
  using assms
proof (induction fmts arbitrary: k)
  case Nil
  then show ?case by simp
next
  case (Cons f fmts)
  show ?case
  proof (cases k)
    case 0
    with Cons.prems show ?thesis by (cases d) simp_all
  next
    case (Suc k')
    with Cons.prems obtain ex where ex: "strp s f = Inl ex" "is_ValueError ex" by fastforce
    have "\<forall>j<k'. \<exists>ex. strp s (fmts ! j) = Inl ex \<and> is_ValueError ex"
      using Cons.prems(3) Suc by fastforce
    with Cons.IH [of k'] Cons.prems Suc
    have "try_formats strp s fmts = Inr (Some (Aware (instant d)))" by simp
    with ex show ?thesis by simp
  qed
qed

lemma try_strings_first:
  assumes "fs = pre @ Some s # post" and "\<forall>s'. Some s' \<in> set pre \<longrightarrow> no_date strp s'"
    and "s \<noteq> []" and "try_formats strp (strip_tz_abbrev s) date_formats = Inr (Some dt)"
  shows "try_strings strp fs = Some dt"
  using assms
proof (induction pre arbitrary: fs)
  case Nil
  then show ?case by simp
next
  case (Cons p pre)
  show ?case
  proof (cases p)
    case None
    with Cons show ?thesis by simp
  next
    case (Some s')
    with Cons.prems have "no_date strp s'" by simp
    with Some Cons show ?thesis
      by (auto simp: no_date_def split: sum.splits option.splits)
  qed
qed

lemma try_strings_none:
  "(\<forall>s. Some s \<in> set fs \<longrightarrow> no_date strp s) \<Longrightarrow> try_strings strp fs = None"
  by (induction strp fs rule: try_strings.induct)
     (auto simp: no_date_def split: sum.splits option.splits)

lemma try_parsed_aware: "try_parsed mk fs = Some dt \<Longrightarrow> \<exists>i. dt = Aware i"
  by (induction mk fs rule: try_parsed.induct) (auto split: option.splits)

lemma try_formats_aware: "try_formats strp s fmts = Inr (Some dt) \<Longrightarrow> \<exists>i. dt = Aware i"
  by (induction strp s fmts rule: try_formats.induct)
     (auto split: sum.splits datetime.splits if_splits)

lemma try_strings_aware: "try_strings strp fs = Some dt \<Longrightarrow> \<exists>i. dt = Aware i"
  by (induction strp fs rule: try_strings.induct)
     (auto split: sum.splits option.splits if_splits dest: try_formats_aware)

lemma parse_published_date_cases:
  "(\<exists>i. parse_published_date env n e = (Aware i, n))
     \<or> parse_published_date env n e = (Aware (now_utc env n), Suc n)"
  by (auto simp: parse_published_date_def split: option.splits
           dest: try_parsed_aware try_strings_aware)

text \<open>
  C7. \<open>_parse_published_date\<close> always returns an aware timestamp and never raises: it
  returns without reading the clock, or it returns the clock's reading. The first of
  the structured fields \<open>published_parsed\<close>, \<open>updated_parsed\<close>, \<open>created_parsed\<close> that the
  constructor accepts wins; when none does, the first non-empty string field among
  \<open>published\<close>, \<open>updated\<close>, \<open>created\<close> that parses wins, with the first format, in the
  listed order, that parses it; when no field gives a date the result is the current
  time. The result is a function of the entry, the library and the clock's reading.
\<close>

theorem parse_published_date_total:
  "((\<exists>i. parse_published_date env n e = (Aware i, n))
      \<or> parse_published_date env n e = (Aware (now_utc env n), Suc n))
   \<and> (\<forall>pre t post i.
         parsed_fields e = pre @ Some t # post
         \<and> (\<forall>t'. Some t' \<in> set pre \<longrightarrow> utc_datetime env t' = None)
         \<and> utc_datetime env t = Some i
         \<longrightarrow> parse_published_date env n e = (Aware i, n))
   \<and> ((\<forall>t. Some t \<in> set (parsed_fields e) \<longrightarrow> utc_datetime env t = None) \<longrightarrow>
         (\<forall>pre s post k d.
            string_fields e = pre @ Some s # post
            \<and> (\<forall>s'. Some s' \<in> set pre \<longrightarrow> no_date (strptime env) s')
            \<and> s \<noteq> [] \<and> k < length date_formats
            \<and> strptime env (strip_tz_abbrev s) (date_formats ! k) = Inr d
            \<and> (\<forall>j<k. \<exists>ex. strptime env (strip_tz_abbrev s) (date_formats ! j) = Inl ex
                         \<and> is_ValueError ex)
            \<longrightarrow> parse_published_date env n e = (Aware (instant d), n))
         \<and> ((\<forall>s. Some s \<in> set (string_fields e) \<longrightarrow> no_date (strptime env) s)
              \<longrightarrow> parse_published_date env n e = (Aware (now_utc env n), Suc n)))"
proof (intro conjI allI impI)
  show "(\<exists>i. parse_published_date env n e = (Aware i, n))
      \<or> parse_published_date env n e = (Aware (now_utc env n), Suc n)"
    by (rule parse_published_date_cases)
next
  fix pre t post i
  assume "parsed_fields e = pre @ Some t # post
         \<and> (\<forall>t'. Some t' \<in> set pre \<longrightarrow> utc_datetime env t' = None)
         \<and> utc_datetime env t = Some i"
  then have "try_parsed (utc_datetime env) (parsed_fields e) = Some (Aware i)"
    using try_parsed_first by blast
  then show "parse_published_date env n e = (Aware i, n)"
    by (simp add: parse_published_date_def)
next
  fix pre s post k d
  assume np: "\<forall>t. Some t \<in> set (parsed_fields e) \<longrightarrow> utc_datetime env t = None"
  assume h: "string_fields e = pre @ Some s # post
            \<and> (\<forall>s'. Some s' \<in> set pre \<longrightarrow> no_date (strptime env) s')
            \<and> s \<noteq> [] \<and> k < length date_formats
            \<and> strptime env (strip_tz_abbrev s) (date_formats ! k) = Inr d
            \<and> (\<forall>j<k. \<exists>ex. strptime env (strip_tz_abbrev s) (date_formats ! j) = Inl ex
                         \<and> is_ValueError ex)"
  from np have p: "try_parsed (utc_datetime env) (parsed_fields e) = None"
    by (rule try_parsed_none)
  from h have "try_formats (strptime env) (strip_tz_abbrev s) date_formats
                 = Inr (Some (Aware (instant d)))"
    using try_formats_first by blast
  with h have "try_strings (strptime env) (string_fields e) = Some (Aware (instant d))"
    using try_strings_first by blast
  with p show "parse_published_date env n e = (Aware (instant d), n)"
    by (simp add: parse_published_date_def)
next
  assume np: "\<forall>t. Some t \<in> set (parsed_fields e) \<longrightarrow> utc_datetime env t = None"
  assume ns: "\<forall>s. Some s \<in> set (string_fields e) \<longrightarrow> no_date (strptime env) s"
  from np have "try_parsed (utc_datetime env) (parsed_fields e) = None"
    by (rule try_parsed_none)
  moreover from ns have "try_strings (strptime env) (string_fields e) = None"
    by (rule try_strings_none)
  ultimately show "parse_published_date env n e = (Aware (now_utc env n), Suc n)"
    by (simp add: parse_published_date_def)
qed

theorem parse_published_date_total_witness:
  "parse_published_date feed_env 3 (entry_of ''T'' ''L'' (Some (tm_of_year 2024)) None)
     = (Aware 1704067200000000, 3)
   \<and> parse_published_date feed_env 3
        (entry_of ''T'' ''L'' (Some (tm_of_year 1)) (Some ''2024-01-01T06:00:00 GMT''))
     = (Aware 1704088800000000, 3)
   \<and> parse_published_date feed_env 3 (entry_of ''T'' ''L'' None (Some ''yesterday''))
     = (Aware 1704153600000000, 4)"
  using parse_published_date_total [of feed_env 3 "entry_of ''T'' ''L'' (Some (tm_of_year 2024)) None"]
  by (simp add: parse_published_date_def parsed_fields_def string_fields_def entry_of_def
      tm_of_year_def feed_env_def strip_tz_abbrev_def is_upper_def is_space_def date_formats_def
      is_ValueError_def)

subsection \<open>The summary\<close>

lemma length_extract_from: "length (extract_from fs) \<le> 500"
  by (induction fs rule: extract_from.induct) (simp_all add: Let_def)

lemma extract_from_find:
  "extract_from fs =
     (case find (\<lambda>c. c \<noteq> []) [candidate v. Some v \<leftarrow> fs] of
        None \<Rightarrow> [] | Some c \<Rightarrow> take 500 (strip_tags c))"
  by (induction fs rule: extract_from.induct) (simp_all add: Let_def)

lemma strip_tags_no_lt: "CHR ''<'' \<notin> set s \<Longrightarrow> strip_tags s = s"
  by (induction s) auto

lemma strip_tags_first_tag:
  assumes "CHR ''<'' \<notin> set pre" and "body \<noteq> []" and "CHR ''>'' \<notin> set body"
  shows "strip_tags (pre @ CHR ''<'' # body @ CHR ''>'' # post) = pre @ strip_tags post"
  using assms
proof (induction pre)
  case Nil
  have b: "\<forall>x\<in>set body. x \<noteq> CHR ''>''" using Nil by auto
  have t: "takeWhile (\<lambda>x. x \<noteq> CHR ''>'') (body @ CHR ''>'' # post) = body"
    using b by (simp add: takeWhile_tail)
  have d: "dropWhile (\<lambda>x. x \<noteq> CHR ''>'') (body @ CHR ''>'' # post) = CHR ''>'' # post"
    using b by simp
  show ?case using Nil t d by simp
next
  case (Cons c pre)
  then show ?case by auto
qed

lemma length_strip_tags: "length (strip_tags s) \<le> length s"
proof (induction s rule: strip_tags.induct)
  case 1
  then show ?case by simp
next
  case (2 c cs)
  have "length (tl (dropWhile (\<lambda>x. x \<noteq> CHR ''>'') cs)) \<le> length cs"
    using length_dropWhile_le [of "\<lambda>x. x \<noteq> CHR ''>''" cs] by simp
  with 2 show ?case by (auto simp del: strip_tags.simps simp add: strip_tags.simps(2) [of c cs])
qed

text \<open>
  C8. \<open>_extract_summary\<close> returns the first non-empty candidate among the fields
  \<open>summary\<close>, \<open>description\<close> and \<open>content\<close>, with the tags removed and cut to at most
  500 characters, and the empty string when no field is present. The tag removal is
  the single pass of \<open><[^>]+>\<close>: a string without \<open><\<close> is unchanged, and from the first
  \<open><\<close> that is followed by a non-empty run without \<open>>\<close> and then a \<open>>\<close>, all of it is
  removed, whatever the run contains.
\<close>

theorem extract_summary_first_nonempty:
  "extract_summary e =
     (case find (\<lambda>c. c \<noteq> []) [candidate v. Some v \<leftarrow> summary_fields e] of
        None \<Rightarrow> [] | Some c \<Rightarrow> take 500 (strip_tags c))
   \<and> length (extract_summary e) \<le> 500
   \<and> (summary_fields e = [None, None, None] \<longrightarrow> extract_summary e = [])
   \<and> (\<forall>s. CHR ''<'' \<notin> set s \<longrightarrow> strip_tags s = s)
   \<and> (\<forall>pre body post.
         CHR ''<'' \<notin> set pre \<and> body \<noteq> [] \<and> CHR ''>'' \<notin> set body
         \<longrightarrow> strip_tags (pre @ CHR ''<'' # body @ CHR ''>'' # post) = pre @ strip_tags post)"
  using extract_from_find [of "summary_fields e"] length_extract_from [of "summary_fields e"]
    strip_tags_no_lt strip_tags_first_tag
  by (auto simp: extract_summary_def)

theorem extract_summary_first_nonempty_witness:
  "extract_summary (entry_of ''T'' ''L'' None None) = ''Recap''
   \<and> extract_summary ((entry_of ''T'' ''L'' None None)
        \<lparr>entry_summary := Some (Text []), entry_description := Some (Parts []),
         entry_content := Some (Parts [Some ''a <b>c</b> < d''])\<rparr>) = ''a c < d''
   \<and> extract_summary ((entry_of ''T'' ''L'' None None)\<lparr>entry_summary := None\<rparr>) = []
   \<and> strip_tags (''x'' @ CHR ''<'' # ''a<b'' @ CHR ''>'' # ''y'') = ''x'' @ strip_tags ''y''"
  using extract_summary_first_nonempty [of "entry_of ''T'' ''L'' None None"]
  by (simp add: extract_summary_def summary_fields_def entry_of_def)

subsection \<open>The topics file\<close>

text \<open>
  C9, as amended. A missing topics file (\<open>FileNotFoundError\<close>) is not fatal:
  \<open>_load_topics\<close> returns the configuration with no topic and no setting; the fetch
  then returns the empty mapping and the total logged is zero, provided the clock's
  reading less two days is a representable date (otherwise computing the cutoff raises
  \<open>OverflowError\<close>), and the summarizer returns the empty mapping for it. Every other
  exception of opening the file, and every exception of the YAML decoder other than
  \<open>FileNotFoundError\<close>, leaves \<open>_load_topics\<close> and ends the fetch step.
\<close>

theorem missing_topics_file_not_fatal:
  "(open_read env f = Inl FileNotFoundError \<longrightarrow>
      load_topics env f = Inr empty_config \<and> topics empty_config = []
      \<and> fetch_step env f news_api_key n
          = (if datetime_min \<le> now_utc env n - 2 * 86400000000
                \<and> now_utc env n - 2 * 86400000000 \<le> datetime_max
             then Inr ([], 0) else Inl OverflowError)
      \<and> summarize_all senv k [] [] = Inr ([], k))
   \<and> (\<forall>e. open_read env f = Inl e \<and> e \<noteq> FileNotFoundError \<longrightarrow>
          load_topics env f = Inl e \<and> fetch_step env f news_api_key n = Inl e)
   \<and> (\<forall>content e. open_read env f = Inr content \<and> yaml_safe_load env content = Inl e
          \<and> e \<noteq> FileNotFoundError \<longrightarrow>
          load_topics env f = Inl e \<and> fetch_step env f news_api_key n = Inl e)"
proof (intro conjI allI impI)
  assume a: "open_read env f = Inl FileNotFoundError"
  then show l: "load_topics env f = Inr empty_config"
    by (simp add: load_topics_def)
  show "topics empty_config = []" by (simp add: empty_config_def)
  show "summarize_all senv k [] [] = Inr ([], k)" by simp
  have c: "fetch_cutoff env empty_config \<lparr>seen_ids = {}, calls = n\<rparr>
             = (if datetime_min \<le> now_utc env n - 2 * 86400000000
                   \<and> now_utc env n - 2 * 86400000000 \<le> datetime_max
                then Inr (now_utc env n - 2 * 86400000000) else Inl OverflowError)"
    by (simp add: fetch_cutoff_def empty_config_def cutoff_date_def timedelta_days_def)
  show "fetch_step env f news_api_key n
          = (if datetime_min \<le> now_utc env n - 2 * 86400000000
                \<and> now_utc env n - 2 * 86400000000 \<le> datetime_max
             then Inr ([], 0) else Inl OverflowError)"
    using l c by (simp add: fetch_step_def fetch_all_def total_articles_def empty_config_def)
next
  fix e
  assume "open_read env f = Inl e \<and> e \<noteq> FileNotFoundError"
  then show "load_topics env f = Inl e" and "fetch_step env f news_api_key n = Inl e"
    by (simp_all add: load_topics_def fetch_step_def)
next
  fix content e
  assume "open_read env f = Inr content \<and> yaml_safe_load env content = Inl e
          \<and> e \<noteq> FileNotFoundError"
  then show "load_topics env f = Inl e" and "fetch_step env f news_api_key n = Inl e"
    by (simp_all add: load_topics_def fetch_step_def)
qed

theorem missing_topics_file_not_fatal_witness:
  "open_read feed_env ''topics.yaml'' = Inl FileNotFoundError
   \<and> datetime_min \<le> now_utc feed_env 0 - 2 * 86400000000
   \<and> now_utc feed_env 0 - 2 * 86400000000 \<le> datetime_max
   \<and> load_topics feed_env ''topics.yaml'' = Inr empty_config
   \<and> fetch_step feed_env ''topics.yaml'' None 0 = Inr ([], 0)
   \<and> open_read locked_env ''topics.yaml'' = Inl PermissionError
   \<and> PermissionError \<noteq> FileNotFoundError
   \<and> fetch_step locked_env ''topics.yaml'' None 0 = Inl PermissionError
   \<and> open_read garbled_env ''topics.yaml'' = Inr ''topics: [''
   \<and> yaml_safe_load garbled_env ''topics: ['' = Inl (OtherError ''YAMLError'')
   \<and> fetch_step garbled_env ''topics.yaml'' None 0 = Inl (OtherError ''YAMLError'')"
  using missing_topics_file_not_fatal [of feed_env "''topics.yaml''" None 0]
    missing_topics_file_not_fatal [of locked_env "''topics.yaml''" None 0]
    missing_topics_file_not_fatal [of garbled_env "''topics.yaml''" None 0]
  by (simp add: feed_env_def locked_env_def garbled_env_def datetime_min_def datetime_max_def)

text \<open>
  C9 as stated fails for a file that exists and cannot be read: \<open>PermissionError\<close>
  is not \<open>FileNotFoundError\<close>, so it leaves \<open>_load_topics\<close> and the constructor, and
  the run ends before any article is counted.
\<close>

theorem unreadable_topics_file_fatal:
  "load_topics locked_env ''topics.yaml'' = Inl PermissionError
   \<and> fetch_step locked_env ''topics.yaml'' None 0 = Inl PermissionError"
  by (simp add: load_topics_def fetch_step_def locked_env_def feed_env_def)

subsection \<open>Deduplication\<close>

lemma adds_refl: "adds st [] st"
  by (simp add: adds_def)

lemma adds_calls: "adds (st\<lparr>calls := n\<rparr>) arts st' = adds st arts st'"
  by (simp add: adds_def)

lemma adds_same: "seen_ids st1 = seen_ids st \<Longrightarrow> adds st1 arts st' \<Longrightarrow> adds st arts st'"
  by (simp add: adds_def)

lemma adds_Cons:
  "article_id a \<notin> seen_ids st \<Longrightarrow> seen_ids st1 = insert (article_id a) (seen_ids st) \<Longrightarrow>
     adds st1 arts st' \<Longrightarrow> adds st (a # arts) st'"
  by (auto simp: adds_def)

lemma adds_append: "adds st as st1 \<Longrightarrow> adds st1 bs st2 \<Longrightarrow> adds st (as @ bs) st2"
  by (auto simp: adds_def)

lemma append_loop_adds:
  assumes "dedup_body body"
  shows "append_loop body xs st = (arts, st') \<Longrightarrow> adds st arts st'"
proof (induction xs arbitrary: st arts st')
  case Nil
  then show ?case by (simp add: adds_refl)
next
  case (Cons x xs)
  obtain r st1 where b: "body x st = (r, st1)" by (cases "body x st")
  from assms b have d: "case r of
           Inr (Some a) \<Rightarrow>
             article_id a \<notin> seen_ids st \<and> seen_ids st1 = insert (article_id a) (seen_ids st)
         | _ \<Rightarrow> seen_ids st1 = seen_ids st"
    unfolding dedup_body_def by blast
  show ?case
  proof (cases r)
    case (Inl e)
    with b d Cons.prems show ?thesis by (auto simp: adds_def)
  next
    case (Inr opt)
    show ?thesis
    proof (cases opt)
      case None
      with Inr d have s: "seen_ids st1 = seen_ids st" by simp
      from None Inr b Cons.prems have "append_loop body xs st1 = (arts, st')" by simp
      then have "adds st1 arts st'" by (rule Cons.IH)
      with s show ?thesis by (rule adds_same)
    next
      case (Some a)
      with Inr d have n: "article_id a \<notin> seen_ids st"
        and s: "seen_ids st1 = insert (article_id a) (seen_ids st)" by simp_all
      obtain as st2 where r: "append_loop body xs st1 = (as, st2)"
        by (cases "append_loop body xs st1")
      with Some Inr b Cons.prems have e: "arts = a # as" "st' = st2" by simp_all
      from r have "adds st1 as st2" by (rule Cons.IH)
      with n s e show ?thesis by (simp add: adds_Cons)
    qed
  qed
qed

lemma dedup_rss_entry: "dedup_body (rss_entry env fname tname)"
  unfolding dedup_body_def
  by (auto simp: rss_entry_def dedup_def Let_def split: sum.splits prod.splits if_splits option.splits)

lemma dedup_news_item: "dedup_body (news_item env tname)"
  unfolding dedup_body_def
  by (auto simp: news_item_def dedup_def Let_def split: sum.splits prod.splits if_splits option.splits)

lemma fetch_rss_feed_adds:
  "fetch_rss_feed env url fname tname st = (arts, st') \<Longrightarrow> adds st arts st'"
proof -
  assume a: "fetch_rss_feed env url fname tname st = (arts, st')"
  show ?thesis
  proof (cases "feedparser_parse env (calls st) url")
    case (Inl e)
    with a show ?thesis by (auto simp: fetch_rss_feed_def adds_def)
  next
    case (Inr entries)
    with a have "append_loop (rss_entry env fname tname) (take 20 entries)
                   (st\<lparr>calls := Suc (calls st)\<rparr>) = (arts, st')"
      by (simp add: fetch_rss_feed_def)
    then have "adds (st\<lparr>calls := Suc (calls st)\<rparr>) arts st'"
      using append_loop_adds [OF dedup_rss_entry] by blast
    then show ?thesis by (simp add: adds_calls)
  qed
qed

lemma fetch_news_api_adds:
  "fetch_news_api env news_api_key kws tname st = (arts, st') \<Longrightarrow> adds st arts st'"
proof -
  assume a: "fetch_news_api env news_api_key kws tname st = (arts, st')"
  show ?thesis
  proof (cases "or_empty news_api_key = []")
    case True
    with a show ?thesis by (auto simp: fetch_news_api_def adds_def)
  next
    case False
    show ?thesis
    proof (cases "newsapi_get env (calls st) (join '' OR '' (take 3 kws)) (or_empty news_api_key)")
      case (Inl e)
      with a False show ?thesis by (auto simp: fetch_news_api_def adds_def)
    next
      case (Inr fld)
      show ?thesis
      proof (cases fld)
        case (Present items)
        with a False Inr have "append_loop (news_item env tname) items
                   (st\<lparr>calls := Suc (calls st)\<rparr>) = (arts, st')"
          by (simp add: fetch_news_api_def)
        then have "adds (st\<lparr>calls := Suc (calls st)\<rparr>) arts st'"
          using append_loop_adds [OF dedup_news_item] by blast
        then show ?thesis by (simp add: adds_calls)
      qed (use a False Inr in \<open>auto simp: fetch_news_api_def adds_def\<close>)
    qed
  qed
qed

lemma fetch_feeds_adds:
  "fetch_feeds env tname fs st = (arts, st') \<Longrightarrow> adds st arts st'"
proof (induction fs arbitrary: st arts st')
  case Nil
  then show ?case by (simp add: adds_refl)
next
  case (Cons f fs)
  show ?case
  proof (cases "or_empty (feed_url f) = []")
    case True
    with Cons show ?thesis by simp
  next
    case False
    obtain as st1 where r: "fetch_rss_feed env (or_empty (feed_url f))
         (case feed_name f of None \<Rightarrow> ''Unknown'' | Some s \<Rightarrow> s) tname st = (as, st1)"
      by (cases "fetch_rss_feed env (or_empty (feed_url f))
         (case feed_name f of None \<Rightarrow> ''Unknown'' | Some s \<Rightarrow> s) tname st")
    obtain bs st2 where t: "fetch_feeds env tname fs st1 = (bs, st2)"
      by (cases "fetch_feeds env tname fs st1")
    from False r t Cons.prems have e: "arts = as @ bs" "st' = st2" by simp_all
    from r have "adds st as st1" by (rule fetch_rss_feed_adds)
    moreover from t have "adds st1 bs st2" by (rule Cons.IH)
    ultimately show ?thesis using e by (simp add: adds_append)
  qed
qed

subsection \<open>Filter, sort and cut of one topic\<close>

lemma filter_recent_filter:
  "filter_recent (Aware c) xs = Inr r \<Longrightarrow>
     r = filter (\<lambda>a. c \<le> instant (published a)) xs \<and> (\<forall>a\<in>set xs. \<exists>i. published a = Aware i)"
proof (induction xs arbitrary: r)
  case Nil
  then show ?case by simp
next
  case (Cons a xs)
  show ?case
  proof (cases "published a")
    case (Naive w)
    with Cons.prems show ?thesis by simp
  next
    case (Aware i)
    with Cons.prems obtain r' where r': "filter_recent (Aware c) xs = Inr r'"
      by (auto split: sum.splits)
    from Cons.IH [OF r'] Cons.prems Aware r' show ?thesis by auto
  qed
qed

lemma sorted_newest_first:
  "sorted_wrt (\<lambda>a b. instant (published b) \<le> instant (published a)) (sort_newest_first xs)"
proof -
  have "sorted (map (\<lambda>a. - instant (published a)) (sort_newest_first xs))"
    unfolding sort_newest_first_def by (rule sorted_sort_key)
  then show ?thesis by (simp add: sorted_map)
qed

lemma set_sort_newest_first: "set (sort_newest_first xs) = set xs"
  by (simp add: sort_newest_first_def)

lemma distinct_ids_sort_newest_first:
  "distinct (map article_id (sort_newest_first xs)) = distinct (map article_id xs)"
proof -
  have "distinct (map article_id (sort_newest_first xs))
          \<longleftrightarrow> card (set (map article_id (sort_newest_first xs)))
                = length (map article_id (sort_newest_first xs))"
    using distinct_card card_distinct by blast
  also have "\<dots> \<longleftrightarrow> card (set (map article_id xs)) = length (map article_id xs)"
    by (simp add: sort_newest_first_def)
  also have "\<dots> \<longleftrightarrow> distinct (map article_id xs)"
    using distinct_card card_distinct by blast
  finally show ?thesis .
qed

lemma filter_recent_sub:
  "filter_recent c xs = Inr r \<Longrightarrow>
     r = filter (\<lambda>a. datetime_ge (published a) c = Inr True) xs"
proof (induction xs arbitrary: r)
  case Nil
  then show ?case by simp
next
  case (Cons a xs)
  then obtain b r' where b: "datetime_ge (published a) c = Inr b"
    and r': "filter_recent c xs = Inr r'"
    by (auto split: sum.splits)
  from Cons.IH [OF r'] Cons.prems b r' show ?case by auto
qed

lemma slice_to_take: "\<exists>k. slice_to n xs = take k xs"
  by (auto simp: slice_to_def)

lemma length_slice_to: "0 \<le> n \<Longrightarrow> int (length (slice_to n xs)) \<le> n"
  by (simp add: slice_to_def)

lemma fetch_topic_articles:
  assumes "fetch_topic env news_api_key cutoff mx tp st = Inr ((name, arts), st')"
  shows "\<exists>all recent. adds st all st' \<and> filter_recent cutoff all = Inr recent
           \<and> arts = slice_to mx (sort_newest_first recent)"
proof -
  let ?tname = "case topic_name tp of None \<Rightarrow> ''Unknown'' | Some s \<Rightarrow> s"
  obtain as st1 where f: "fetch_feeds env ?tname (rss_feeds tp) st = (as, st1)"
    by (cases "fetch_feeds env ?tname (rss_feeds tp) st")
  then have a1: "adds st as st1" by (rule fetch_feeds_adds)
  obtain all st3 where c: "(if length as < 5 \<and> topic_keywords tp \<noteq> []
                    then (case fetch_news_api env news_api_key (topic_keywords tp) ?tname st1 of
                            (bs, st2) \<Rightarrow> (as @ bs, st2))
                    else (as, st1)) = (all, st3)"
    by (cases "(if length as < 5 \<and> topic_keywords tp \<noteq> []
                    then (case fetch_news_api env news_api_key (topic_keywords tp) ?tname st1 of
                            (bs, st2) \<Rightarrow> (as @ bs, st2))
                    else (as, st1))")
  have a3: "adds st all st3"
  proof (cases "length as < 5 \<and> topic_keywords tp \<noteq> []")
    case True
    obtain bs st2 where n: "fetch_news_api env news_api_key (topic_keywords tp) ?tname st1 = (bs, st2)"
      by (cases "fetch_news_api env news_api_key (topic_keywords tp) ?tname st1")
    then have "adds st1 bs st2" by (rule fetch_news_api_adds)
    with a1 have "adds st (as @ bs) st2" by (rule adds_append)
    with True n c show ?thesis by simp
  next
    case False
    with c a1 show ?thesis by auto
  qed
  from assms f c obtain recent where
    "filter_recent cutoff all = Inr recent" "arts = slice_to mx (sort_newest_first recent)"
    "st' = st3"
    by (auto simp: fetch_topic_def split: sum.splits)
  with a3 show ?thesis by blast
qed

lemma fetch_topic_ids:
  assumes "fetch_topic env news_api_key cutoff mx tp st = Inr ((name, arts), st')"
  shows "distinct (map article_id arts) \<and> set (map article_id arts) \<inter> seen_ids st = {}
         \<and> set (map article_id arts) \<subseteq> seen_ids st' \<and> seen_ids st \<subseteq> seen_ids st'"
proof -
  from fetch_topic_articles [OF assms] obtain all recent where
    a: "adds st all st'" and f: "filter_recent cutoff all = Inr recent"
    and s: "arts = slice_to mx (sort_newest_first recent)"
    by blast
  obtain k where k: "arts = take k (sort_newest_first recent)"
    using s slice_to_take by blast
  have sub: "set recent \<subseteq> set all \<and> (distinct (map article_id all) \<longrightarrow> distinct (map article_id recent))"
    using filter_recent_sub [OF f] by (auto simp: distinct_map_filter)
  have d: "distinct (map article_id arts)"
  proof -
    from a sub have "distinct (map article_id recent)" by (simp add: adds_def)
    then have "distinct (map article_id (sort_newest_first recent))"
      by (simp add: distinct_ids_sort_newest_first)
    then show ?thesis unfolding k by (simp add: take_map [symmetric] distinct_take)
  qed
  have "set arts \<subseteq> set all"
    using k sub set_take_subset [of k "sort_newest_first recent"]
    by (auto simp: set_sort_newest_first)
  then have i: "set (map article_id arts) \<subseteq> set (map article_id all)" by auto
  from a i d show ?thesis by (auto simp: adds_def)
qed

lemma fetch_topic_recent:
  assumes "fetch_topic env news_api_key (Aware c) mx tp st = Inr ((name, arts), st')"
  shows "(\<forall>a\<in>set arts. \<exists>i. published a = Aware i \<and> c \<le> i)
         \<and> sorted_wrt (\<lambda>a b. instant (published b) \<le> instant (published a)) arts
         \<and> (0 \<le> mx \<longrightarrow> int (length arts) \<le> mx)"
proof -
  from fetch_topic_articles [OF assms] obtain all recent where
    f: "filter_recent (Aware c) all = Inr recent"
    and s: "arts = slice_to mx (sort_newest_first recent)"
    by blast
  obtain k where k: "arts = take k (sort_newest_first recent)"
    using s slice_to_take by blast
  from filter_recent_filter [OF f] have
    r: "\<forall>a\<in>set recent. \<exists>i. published a = Aware i \<and> c \<le> i"
    by fastforce
  have "set arts \<subseteq> set recent"
    using k set_take_subset [of k "sort_newest_first recent"] by (simp add: set_sort_newest_first)
  with r have 1: "\<forall>a\<in>set arts. \<exists>i. published a = Aware i \<and> c \<le> i" by blast
  have 2: "sorted_wrt (\<lambda>a b. instant (published b) \<le> instant (published a)) arts"
    unfolding k by (rule sorted_wrt_take) (rule sorted_newest_first)
  have 3: "0 \<le> mx \<longrightarrow> int (length arts) \<le> mx"
    unfolding s by (simp add: length_slice_to)
  from 1 2 3 show ?thesis by blast
qed

subsection \<open>The mapping of \<open>fetch_all\<close>\<close>

lemma update_member:
  "kv \<in> set (AList.update k v al) \<Longrightarrow> kv = (k, v) \<or> kv \<in> set al"
  by (induction al) (auto split: if_splits)

lemma update_values:
  "set (concat (map snd (AList.update k v al))) \<subseteq> set v \<union> set (concat (map snd al))"
  by (induction al) auto

lemma update_ids:
  "set (map f (concat (map snd (AList.update k v al))))
     \<subseteq> set (map f v) \<union> set (map f (concat (map snd al)))"
  using update_values [of k v al] by auto

lemma update_distinct:
  "distinct (map f (concat (map snd al))) \<Longrightarrow> distinct (map f v) \<Longrightarrow>
     set (map f v) \<inter> set (map f (concat (map snd al))) = {} \<Longrightarrow>
     distinct (map f (concat (map snd (AList.update k v al))))"
proof (induction al)
  case Nil
  then show ?case by simp
next
  case (Cons p al)
  show ?case
  proof (cases "fst p = k")
    case True
    with Cons.prems show ?thesis by auto
  next
    case False
    define P where "P = map f (snd p)"
    define A where "A = map f (concat (map snd al))"
    define V where "V = map f v"
    define R where "R = map f (concat (map snd (AList.update k v al)))"
    from Cons.prems(1) have dp: "distinct P" and da: "distinct A" and pa: "set P \<inter> set A = {}"
      by (simp_all add: P_def A_def)
    from Cons.prems(3) have vp: "set V \<inter> set P = {}" and va: "set V \<inter> set A = {}"
      by (auto simp: P_def A_def V_def)
    from Cons.prems(2) have dv: "distinct V" by (simp add: V_def)
    have dr: "distinct R"
      unfolding R_def using Cons.IH da dv va unfolding A_def V_def by blast
    have "set R \<subseteq> set V \<union> set A"
      unfolding R_def V_def A_def by (rule update_ids)
    with vp pa have pr: "set P \<inter> set R = {}" by blast
    have "map f (concat (map snd (AList.update k v (p # al)))) = P @ R"
      using False by (simp add: P_def R_def)
    with dp dr pr show ?thesis by simp
  qed
qed

lemma fetch_topics_ids:
  assumes "fetch_topics env news_api_key cutoff mx tps results st = Inr (res, st')"
    and "distinct (map article_id (concat (map snd results)))"
    and "set (map article_id (concat (map snd results))) \<subseteq> seen_ids st"
  shows "distinct (map article_id (concat (map snd res)))"
  using assms
proof (induction tps arbitrary: results st)
  case Nil
  then show ?case by simp
next
  case (Cons tp tps)
  from Cons.prems(1) obtain name arts st1 where
    t: "fetch_topic env news_api_key cutoff mx tp st = Inr ((name, arts), st1)"
    and r: "fetch_topics env news_api_key cutoff mx tps (AList.update name arts results) st1
              = Inr (res, st')"
    by (auto split: sum.splits)
  from fetch_topic_ids [OF t] have d: "distinct (map article_id arts)"
    and n: "set (map article_id arts) \<inter> seen_ids st = {}"
    and s: "set (map article_id arts) \<subseteq> seen_ids st1" and m: "seen_ids st \<subseteq> seen_ids st1"
    by simp_all
  from n Cons.prems(3) have i:
    "set (map article_id arts) \<inter> set (map article_id (concat (map snd results))) = {}"
    by blast
  have 1: "distinct (map article_id (concat (map snd (AList.update name arts results))))"
    using Cons.prems(2) d i by (rule update_distinct)
  have "set (map article_id (concat (map snd (AList.update name arts results))))
          \<subseteq> set (map article_id arts) \<union> set (map article_id (concat (map snd results)))"
    by (rule update_ids)
  with s m Cons.prems(3)
  have 2: "set (map article_id (concat (map snd (AList.update name arts results)))) \<subseteq> seen_ids st1"
    by blast
  from Cons.IH [OF r 1 2] show ?case .
qed

lemma fetch_topics_recent:
  assumes "fetch_topics env news_api_key (Aware c) mx tps results st = Inr (res, st')"
    and "\<forall>kv\<in>set results. P (snd kv)"
    and "\<And>tp st name arts st1.
           fetch_topic env news_api_key (Aware c) mx tp st = Inr ((name, arts), st1) \<Longrightarrow> P arts"
  shows "\<forall>kv\<in>set res. P (snd kv)"
  using assms(1,2)
proof (induction tps arbitrary: results st)
  case Nil
  then show ?case by simp
next
  case (Cons tp tps)
  from Cons.prems(1) obtain name arts st1 where
    t: "fetch_topic env news_api_key (Aware c) mx tp st = Inr ((name, arts), st1)"
    and r: "fetch_topics env news_api_key (Aware c) mx tps (AList.update name arts results) st1
              = Inr (res, st')"
    by (auto split: sum.splits)
  from t have "P arts" by (rule assms(3))
  with Cons.prems(2) have "\<forall>kv\<in>set (AList.update name arts results). P (snd kv)"
    using update_member by fastforce
  with r show ?case by (rule Cons.IH)
qed

lemma fetch_topic_collect:
  "fetch_topic env news_api_key cutoff mx tp st =
     (case collect_topic env news_api_key tp st of
        (all, st3) \<Rightarrow>
          (case filter_recent cutoff all of
             Inl e \<Rightarrow> Inl e
           | Inr recent \<Rightarrow>
               Inr ((topic_label tp, slice_to mx (sort_newest_first recent)), st3)))"
proof -
  obtain as st1 where f: "fetch_feeds env (topic_label tp) (rss_feeds tp) st = (as, st1)"
    by (cases "fetch_feeds env (topic_label tp) (rss_feeds tp) st")
  obtain bs st2 where
    n: "fetch_news_api env news_api_key (topic_keywords tp) (topic_label tp) st1 = (bs, st2)"
    by (cases "fetch_news_api env news_api_key (topic_keywords tp) (topic_label tp) st1")
  show ?thesis
  proof (cases "length as < 5 \<and> topic_keywords tp \<noteq> []")
    case True
    with f n have "collect_topic env news_api_key tp st = (as @ bs, st2)"
      by (simp add: collect_topic_def)
    moreover from True f n have "fetch_topic env news_api_key cutoff mx tp st =
        (case filter_recent cutoff (as @ bs) of
           Inl e \<Rightarrow> Inl e
         | Inr recent \<Rightarrow> Inr ((topic_label tp, slice_to mx (sort_newest_first recent)), st2))"
      using f n by (simp add: fetch_topic_def topic_label_def [symmetric])
    ultimately show ?thesis by simp
  next
    case False
    with f have "collect_topic env news_api_key tp st = (as, st1)"
      by (auto simp: collect_topic_def)
    moreover from False f have "fetch_topic env news_api_key cutoff mx tp st =
        (case filter_recent cutoff as of
           Inl e \<Rightarrow> Inl e
         | Inr recent \<Rightarrow> Inr ((topic_label tp, slice_to mx (sort_newest_first recent)), st1))"
      by (auto simp: fetch_topic_def topic_label_def [symmetric])
    ultimately show ?thesis by simp
  qed
qed

lemma filter_recent_exact:
  "filter_recent (Aware c) xs =
     (if \<forall>a\<in>set xs. \<exists>i. published a = Aware i
      then Inr (filter (\<lambda>a. c \<le> instant (published a)) xs) else Inl TypeError)"
proof (induction xs)
  case Nil
  then show ?case by simp
next
  case (Cons a xs)
  then show ?case by (cases "published a") auto
qed

lemma slice_to_cases:
  "(0 \<le> n \<longrightarrow> slice_to n xs = take (nat n) xs)
   \<and> (n < 0 \<longrightarrow> slice_to n xs = take (length xs - nat (- n)) xs)"
proof -
  have "n < 0 \<Longrightarrow> nat (int (length xs) + n) = length xs - nat (- n)" by linarith
  then show ?thesis by (simp add: slice_to_def)
qed

lemma fetch_topic_exact:
  assumes "fetch_topic env news_api_key (Aware c) mx tp st = Inr ((name, arts), st1)"
  shows "name = topic_label tp
         \<and> (\<forall>a\<in>set (fst (collect_topic env news_api_key tp st)). \<exists>i. published a = Aware i)
         \<and> arts = slice_to mx (sort_newest_first
                     (filter (\<lambda>a. c \<le> instant (published a))
                        (fst (collect_topic env news_api_key tp st))))"
proof -
  obtain all st3 where c: "collect_topic env news_api_key tp st = (all, st3)"
    by (cases "collect_topic env news_api_key tp st")
  show ?thesis
  proof (cases "\<forall>a\<in>set all. \<exists>i. published a = Aware i")
    case True
    with assms c show ?thesis
      by (simp add: fetch_topic_collect filter_recent_exact)
  next
    case False
    with assms c show ?thesis
      by (simp add: fetch_topic_collect filter_recent_exact)
  qed
qed

lemma fetch_topics_each:
  assumes "fetch_topics env news_api_key cutoff mx tps results st = Inr (res, st')"
    and "\<forall>kv\<in>set results. P kv"
    and "\<And>tp s name arts s1. tp \<in> set tps \<Longrightarrow>
           fetch_topic env news_api_key cutoff mx tp s = Inr ((name, arts), s1) \<Longrightarrow> P (name, arts)"
  shows "\<forall>kv\<in>set res. P kv"
  using assms
proof (induction tps arbitrary: results st)
  case Nil
  then show ?case by simp
next
  case (Cons tp tps)
  from Cons.prems(1) obtain name arts st1 where
    t: "fetch_topic env news_api_key cutoff mx tp st = Inr ((name, arts), st1)"
    and r: "fetch_topics env news_api_key cutoff mx tps (AList.update name arts results) st1
              = Inr (res, st')"
    by (auto split: sum.splits)
  have "P (name, arts)" using Cons.prems(3) [of tp st name arts st1] t by simp
  with Cons.prems(2) have u: "\<forall>kv\<in>set (AList.update name arts results). P kv"
    using update_member by fastforce
  show ?case
  proof (rule Cons.IH [OF r u])
    fix tp' s name' arts' s1
    assume "tp' \<in> set tps"
      and "fetch_topic env news_api_key cutoff mx tp' s = Inr ((name', arts'), s1)"
    then show "P (name', arts')" using Cons.prems(3) [of tp' s name' arts' s1] by simp
  qed
qed

text \<open>
  C3, as amended. When \<open>fetch_all\<close> returns, with the cutoff \<open>now - keep_days\<close>
  (days, default 2) that it computed first, every list of the mapping is the list of
  one of the topics: the articles collected for the topic, all with an aware
  \<open>published\<close>, filtered to those published at or after the cutoff, sorted newest
  first, and sliced by \<open>max_articles_per_topic\<close> (default 10), which is what the loop
  body stores for any topic in any state. So every Article of
  the list is published at or after the cutoff; a collected Article published exactly
  at the cutoff is in the list when the filtered articles are no more than the
  maximum; the published timestamps of the list are non-increasing; and when the
  maximum is not negative the list has at most that many Articles. The slice keeps
  the first \<open>max\<close> articles for a maximum that is not negative, and all but the last
  \<open>-max\<close> for a negative one.
\<close>

theorem fetch_all_recent_sorted_capped:
  assumes "fetch_all env cfg news_api_key st = Inr (results, st')"
  shows "\<exists>c. fetch_cutoff env cfg st = Inr c
           \<and> c = now_utc env (calls st)
                   - (case keep_days cfg of None \<Rightarrow> 2 | Some k \<Rightarrow> k) * 86400000000
           \<and> (\<forall>kv\<in>set results.
                 (\<forall>a\<in>set (snd kv). \<exists>i. published a = Aware i \<and> c \<le> i)
                 \<and> sorted_wrt (\<lambda>a b. instant (published b) \<le> instant (published a)) (snd kv)
                 \<and> (0 \<le> (case max_articles_per_topic cfg of None \<Rightarrow> 10 | Some m \<Rightarrow> m)
                      \<longrightarrow> int (length (snd kv))
                            \<le> (case max_articles_per_topic cfg of None \<Rightarrow> 10 | Some m \<Rightarrow> m))
                 \<and> (\<exists>tp s. tp \<in> set (topics cfg) \<and> fst kv = topic_label tp
                       \<and> (\<forall>a\<in>set (fst (collect_topic env news_api_key tp s)).
                             \<exists>i. published a = Aware i)
                       \<and> snd kv
                           = slice_to (case max_articles_per_topic cfg of None \<Rightarrow> 10 | Some m \<Rightarrow> m)
                               (sort_newest_first
                                  (filter (\<lambda>a. c \<le> instant (published a))
                                     (fst (collect_topic env news_api_key tp s))))
                       \<and> (\<forall>a\<in>set (fst (collect_topic env news_api_key tp s)).
                             published a = Aware c
                             \<and> int (length (filter (\<lambda>a. c \<le> instant (published a))
                                               (fst (collect_topic env news_api_key tp s))))
                                  \<le> (case max_articles_per_topic cfg of None \<Rightarrow> 10 | Some m \<Rightarrow> m)
                             \<longrightarrow> a \<in> set (snd kv))))
           \<and> (\<forall>tp s.
                 fetch_topic env news_api_key (Aware c)
                     (case max_articles_per_topic cfg of None \<Rightarrow> 10 | Some m \<Rightarrow> m) tp s
                   = (if \<forall>a\<in>set (fst (collect_topic env news_api_key tp s)).
                            \<exists>i. published a = Aware i
                      then Inr ((topic_label tp,
                                 slice_to (case max_articles_per_topic cfg of None \<Rightarrow> 10 | Some m \<Rightarrow> m)
                                   (sort_newest_first
                                      (filter (\<lambda>a. c \<le> instant (published a))
                                         (fst (collect_topic env news_api_key tp s))))),
                                snd (collect_topic env news_api_key tp s))
                      else Inl TypeError))
           \<and> (\<forall>xs :: article list.
                 (0 \<le> (case max_articles_per_topic cfg of None \<Rightarrow> 10 | Some m \<Rightarrow> m)
                    \<longrightarrow> slice_to (case max_articles_per_topic cfg of None \<Rightarrow> 10 | Some m \<Rightarrow> m) xs
                          = take (nat (case max_articles_per_topic cfg of None \<Rightarrow> 10 | Some m \<Rightarrow> m)) xs)
                 \<and> ((case max_articles_per_topic cfg of None \<Rightarrow> 10 | Some m \<Rightarrow> m) < 0
                    \<longrightarrow> slice_to (case max_articles_per_topic cfg of None \<Rightarrow> 10 | Some m \<Rightarrow> m) xs
                          = take (length xs
                                    - nat (- (case max_articles_per_topic cfg of None \<Rightarrow> 10 | Some m \<Rightarrow> m)))
                              xs))"
proof -
  define mx where "mx = (case max_articles_per_topic cfg of None \<Rightarrow> 10 | Some m \<Rightarrow> m)"
  from assms obtain c where c: "fetch_cutoff env cfg st = Inr c"
    and t: "fetch_topics env news_api_key (Aware c) mx (topics cfg) []
              (st\<lparr>calls := Suc (calls st)\<rparr>) = Inr (results, st')"
    by (auto simp: fetch_all_def mx_def split: sum.splits)
  from c have v: "c = now_utc env (calls st)
                   - (case keep_days cfg of None \<Rightarrow> 2 | Some k \<Rightarrow> k) * 86400000000"
    by (auto simp: fetch_cutoff_def cutoff_date_def timedelta_days_def split: if_splits)
  let ?P = "\<lambda>kv. (\<forall>a\<in>set (snd kv). \<exists>i. published a = Aware i \<and> c \<le> i)
                 \<and> sorted_wrt (\<lambda>a b. instant (published b) \<le> instant (published a)) (snd kv)
                 \<and> (0 \<le> mx \<longrightarrow> int (length (snd kv)) \<le> mx)
                 \<and> (\<exists>tp s. tp \<in> set (topics cfg) \<and> fst kv = topic_label tp
                       \<and> (\<forall>a\<in>set (fst (collect_topic env news_api_key tp s)).
                             \<exists>i. published a = Aware i)
                       \<and> snd kv
                           = slice_to mx
                               (sort_newest_first
                                  (filter (\<lambda>a. c \<le> instant (published a))
                                     (fst (collect_topic env news_api_key tp s))))
                       \<and> (\<forall>a\<in>set (fst (collect_topic env news_api_key tp s)).
                             published a = Aware c
                             \<and> int (length (filter (\<lambda>a. c \<le> instant (published a))
                                               (fst (collect_topic env news_api_key tp s))))
                                  \<le> mx
                             \<longrightarrow> a \<in> set (snd kv)))"
  have "\<forall>kv\<in>set results. ?P kv"
  proof (rule fetch_topics_each [OF t])
    show "\<forall>kv\<in>set []. ?P kv" by simp
  next
    fix tp s name arts s1
    assume m: "tp \<in> set (topics cfg)"
      and f: "fetch_topic env news_api_key (Aware c) mx tp s = Inr ((name, arts), s1)"
    define all where "all = fst (collect_topic env news_api_key tp s)"
    define recent where "recent = filter (\<lambda>a. c \<le> instant (published a)) all"
    from fetch_topic_recent [OF f] have
      p: "(\<forall>a\<in>set arts. \<exists>i. published a = Aware i \<and> c \<le> i)
         \<and> sorted_wrt (\<lambda>a b. instant (published b) \<le> instant (published a)) arts
         \<and> (0 \<le> mx \<longrightarrow> int (length arts) \<le> mx)" .
    from fetch_topic_exact [OF f] have
      n: "name = topic_label tp" and aw: "\<forall>a\<in>set all. \<exists>i. published a = Aware i"
      and e: "arts = slice_to mx (sort_newest_first recent)"
      by (simp_all add: all_def recent_def)
    have b: "\<forall>a\<in>set all. published a = Aware c \<and> int (length recent) \<le> mx \<longrightarrow> a \<in> set arts"
    proof (intro ballI impI)
      fix a assume a: "a \<in> set all" and h: "published a = Aware c \<and> int (length recent) \<le> mx"
      then have "a \<in> set recent" by (simp add: recent_def)
      moreover from h have "0 \<le> mx" and "length recent \<le> nat mx" by linarith+
      then have "slice_to mx (sort_newest_first recent) = sort_newest_first recent"
        by (simp add: slice_to_def sort_newest_first_def)
      ultimately show "a \<in> set arts" using e by (simp add: set_sort_newest_first)
    qed
    from p n aw e b m show "?P (name, arts)"
      unfolding all_def recent_def by auto
  qed
  then have 1: "\<forall>kv\<in>set results. ?P kv" .
  have 2: "\<forall>tp s.
                 fetch_topic env news_api_key (Aware c) mx tp s
                   = (if \<forall>a\<in>set (fst (collect_topic env news_api_key tp s)).
                            \<exists>i. published a = Aware i
                      then Inr ((topic_label tp,
                                 slice_to mx
                                   (sort_newest_first
                                      (filter (\<lambda>a. c \<le> instant (published a))
                                         (fst (collect_topic env news_api_key tp s))))),
                                snd (collect_topic env news_api_key tp s))
                      else Inl TypeError)"
    by (simp add: fetch_topic_collect filter_recent_exact split: prod.splits)
  have 3: "\<forall>xs :: article list.
                 (0 \<le> mx \<longrightarrow> slice_to mx xs = take (nat mx) xs)
                 \<and> (mx < 0 \<longrightarrow> slice_to mx xs = take (length xs - nat (- mx)) xs)"
    using slice_to_cases by blast
  from c v 1 2 3 show ?thesis unfolding mx_def by blast
qed

theorem fetch_all_recent_sorted_capped_witness:
  "fetch_all feed_env boundary_cfg None \<lparr>seen_ids = {}, calls = 0\<rparr>
     = Inr ([(''NBA'', [Article (\<lambda>s. s) ''Lakers win'' ''http://x/1'' ''A''
                          (Aware 1704067200000000) ''Recap'' [] ''NBA'' [],
                        Article (\<lambda>s. s) ''Trade news'' ''http://x/2'' ''A''
                          (Aware 1704067200000000) ''Recap'' [] ''NBA'' []])],
            \<lparr>seen_ids = {''Last seasonh'', ''Trade newsht'', ''Lakers winht''}, calls = 2\<rparr>)
   \<and> fetch_cutoff feed_env boundary_cfg \<lparr>seen_ids = {}, calls = 0\<rparr> = Inr 1704067200000000
   \<and> map published (fst (collect_topic feed_env None nba_topic \<lparr>seen_ids = {}, calls = 1\<rparr>))
       = [Aware 1704067200000000, Aware 1704067200000000, Aware 1672531200000000]
   \<and> fetch_all feed_env one_cfg None \<lparr>seen_ids = {}, calls = 0\<rparr>
     = Inr ([(''NBA'', [Article (\<lambda>s. s) ''Lakers win'' ''http://x/1'' ''A''
                          (Aware 1704067200000000) ''Recap'' [] ''NBA'' []])],
            \<lparr>seen_ids = {''Last seasonh'', ''Trade newsht'', ''Lakers winht''}, calls = 2\<rparr>)
   \<and> fetch_cutoff feed_env one_cfg \<lparr>seen_ids = {}, calls = 0\<rparr> = Inr 1703980800000000"
proof -
  have e: "fetch_all feed_env boundary_cfg None \<lparr>seen_ids = {}, calls = 0\<rparr>
     = Inr ([(''NBA'', [Article (\<lambda>s. s) ''Lakers win'' ''http://x/1'' ''A''
                          (Aware 1704067200000000) ''Recap'' [] ''NBA'' [],
                        Article (\<lambda>s. s) ''Trade news'' ''http://x/2'' ''A''
                          (Aware 1704067200000000) ''Recap'' [] ''NBA'' []])],
            \<lparr>seen_ids = {''Last seasonh'', ''Trade newsht'', ''Lakers winht''}, calls = 2\<rparr>)"
    by code_simp
  have c: "fetch_cutoff feed_env boundary_cfg \<lparr>seen_ids = {}, calls = 0\<rparr> = Inr 1704067200000000"
    by code_simp
  have p: "map published (fst (collect_topic feed_env None nba_topic \<lparr>seen_ids = {}, calls = 1\<rparr>))
       = [Aware 1704067200000000, Aware 1704067200000000, Aware 1672531200000000]"
    by code_simp
  have e1: "fetch_all feed_env one_cfg None \<lparr>seen_ids = {}, calls = 0\<rparr>
     = Inr ([(''NBA'', [Article (\<lambda>s. s) ''Lakers win'' ''http://x/1'' ''A''
                          (Aware 1704067200000000) ''Recap'' [] ''NBA'' []])],
            \<lparr>seen_ids = {''Last seasonh'', ''Trade newsht'', ''Lakers winht''}, calls = 2\<rparr>)"
    by code_simp
  have c1: "fetch_cutoff feed_env one_cfg \<lparr>seen_ids = {}, calls = 0\<rparr> = Inr 1703980800000000"
    by code_simp
  from fetch_all_recent_sorted_capped [OF e] fetch_all_recent_sorted_capped [OF e1] e c p e1 c1
  show ?thesis by simp
qed

text \<open>
  C3 as stated fails for a negative maximum: \<open>topic_articles[:-1]\<close> drops the last
  Article only, so with two recent Articles the list has one, which is more than -1.
\<close>

theorem negative_maximum_counterexample:
  "map_sum (\<lambda>e. e) (\<lambda>r. map (\<lambda>kv. (fst kv, map title (snd kv))) (fst r))
     (fetch_all feed_env neg_cfg None \<lparr>seen_ids = {}, calls = 0\<rparr>)
     = Inr [(''NBA'', [''Lakers win''])]
   \<and> max_articles_per_topic neg_cfg = Some (- 1)
   \<and> \<not> int (length [''Lakers win'']) \<le> - 1"
  by code_simp

subsection \<open>What the loops keep\<close>

lemma article_id_rss_article: "article_id (rss_article env fname tname e n) = entry_id env e"
  by (simp add: rss_article_def entry_id_def Article_def)

lemma rss_entry_usable:
  assumes "entry_usable env e"
  shows "rss_entry env fname tname e st =
     (if entry_id env e \<in> seen_ids st
      then (Inr None, st\<lparr>calls := snd (parse_published_date env (calls st) e)\<rparr>)
      else (Inr (Some (rss_article env fname tname e (calls st))),
            st\<lparr>calls := snd (parse_published_date env (calls st) e),
               seen_ids := insert (entry_id env e) (seen_ids st)\<rparr>))"
proof -
  from assms obtain l where t: "strip (or_empty (entry_title e)) \<noteq> []"
    and k: "or_empty (entry_link e) \<noteq> []"
    and c: "clean_google_news_url env (or_empty (entry_link e)) = Inr l"
    by (auto simp: entry_usable_def split: sum.splits)
  from c have l: "l = or_empty (entry_link e)"
    by (auto simp: clean_google_news_url_def split: if_splits option.splits)
  obtain p n where pd: "parse_published_date env (calls st) e = (p, n)"
    by (cases "parse_published_date env (calls st) e")
  have a: "rss_article env fname tname e (calls st)
             = Article (md5 env) (strip (or_empty (entry_title e))) l fname p
                 (extract_summary e) [] tname []"
    using pd l by (simp add: rss_article_def)
  have i: "article_id (Article (md5 env) (strip (or_empty (entry_title e))) l fname p
                 (extract_summary e) [] tname []) = entry_id env e"
    using a article_id_rss_article [of env fname tname e "calls st"] by simp
  show ?thesis
    using t k c pd i a
    by (simp add: rss_entry_def Let_def dedup_def)
qed


lemma news_article_None:
  "news_article env tname item n = None \<longleftrightarrow> news_article env tname' item n' = None"
  by (auto simp: news_article_def get_published_def
           split: sum.splits field.splits if_splits)

lemma article_id_news_article:
  "news_article env tname item n = Some a \<Longrightarrow> article_id a = item_id env item"
  by (auto simp: news_article_def item_id_def Article_def split: sum.splits)

lemma news_item_usable:
  assumes "item_usable item" and "news_article env tname item (calls st) = Some a"
  shows "news_item env tname item st =
     (if item_id env item \<in> seen_ids st
      then (Inr None, st\<lparr>calls := Suc (calls st)\<rparr>)
      else (Inr (Some a),
            st\<lparr>calls := Suc (calls st), seen_ids := insert (item_id env item) (seen_ids st)\<rparr>))"
proof -
  from assms(2) obtain t p src d where t: "get_title item = Inr t"
    and p: "get_published env (Aware (now_utc env (calls st))) item = Inr p"
    and s: "get_source item = Inr src" and d: "get_description item = Inr d"
    and a: "a = Article (md5 env) t (get_url item) src p d [] tname []"
    by (auto simp: news_article_def split: sum.splits)
  from assms(1) t have u: "t \<noteq> []" "get_url item \<noteq> []" "t \<noteq> ''[Removed]''"
    by (simp_all add: item_usable_def)
  have i: "article_id (Article (md5 env) t (get_url item) src p d [] tname []) = item_id env item"
    using article_id_news_article [OF assms(2)] a by simp
  show ?thesis
    using t p s d u i a by (simp add: news_item_def Let_def dedup_def)
qed

lemma adds_mono: "adds st arts st' \<Longrightarrow> seen_ids st \<subseteq> seen_ids st'"
  by (auto simp: adds_def)

lemma append_loop_records:
  assumes "dedup_body body"
    and "\<forall>x\<in>set xs. \<forall>s. \<exists>r s'. body x s = (Inr r, s')"
    and "\<forall>x\<in>set xs. want x \<longrightarrow> (\<forall>s r s'. body x s = (r, s') \<longrightarrow> key x \<in> seen_ids s')"
    and "append_loop body xs st = (arts, st')"
  shows "\<forall>x\<in>set xs. want x \<longrightarrow> key x \<in> seen_ids st'"
  using assms(2,3,4)
proof (induction xs arbitrary: st arts st')
  case Nil
  then show ?case by simp
next
  case (Cons x xs)
  from Cons.prems(1) obtain r s1 where b: "body x st = (Inr r, s1)" by fastforce
  obtain as s2 where l: "append_loop body xs s1 = (as, s2)"
    by (cases "append_loop body xs s1")
  from b l Cons.prems(3) have e: "st' = s2" by (cases r) simp_all
  from l have m: "seen_ids s1 \<subseteq> seen_ids s2"
    using append_loop_adds [OF assms(1)] adds_mono by blast
  have h: "want x \<longrightarrow> key x \<in> seen_ids st'"
    using Cons.prems(2) b m e by auto
  have "\<forall>y\<in>set xs. want y \<longrightarrow> key y \<in> seen_ids s2"
    using Cons.IH [OF _ _ l] Cons.prems(1,2) by simp
  with h e show ?case by simp
qed

lemma rss_entry_returns:
  "\<not> entry_raises env e \<Longrightarrow> \<exists>r s'. rss_entry env fname tname e s = (Inr r, s')"
  by (auto simp: entry_raises_def rss_entry_def Let_def split: sum.splits prod.splits)

lemma rss_entry_records:
  "entry_usable env e \<Longrightarrow> rss_entry env fname tname e s = (r, s') \<Longrightarrow> entry_id env e \<in> seen_ids s'"
  by (auto simp: rss_entry_usable split: if_splits)

lemma fetch_rss_feed_records:
  assumes "feedparser_parse env (calls st) url = Inr entries"
    and "\<forall>e\<in>set (take 20 entries). \<not> entry_raises env e"
  shows "\<forall>e\<in>set (take 20 entries). entry_usable env e \<longrightarrow>
           entry_id env e \<in> seen_ids (snd (fetch_rss_feed env url fname tname st))"
proof -
  obtain arts st' where r: "fetch_rss_feed env url fname tname st = (arts, st')"
    by (cases "fetch_rss_feed env url fname tname st")
  with assms(1) have l: "append_loop (rss_entry env fname tname) (take 20 entries)
                   (st\<lparr>calls := Suc (calls st)\<rparr>) = (arts, st')"
    by (simp add: fetch_rss_feed_def)
  have "\<forall>e\<in>set (take 20 entries). entry_usable env e \<longrightarrow> entry_id env e \<in> seen_ids st'"
  proof (rule append_loop_records [OF dedup_rss_entry _ _ l])
    show "\<forall>x\<in>set (take 20 entries). \<forall>s. \<exists>r s'. rss_entry env fname tname x s = (Inr r, s')"
      using assms(2) rss_entry_returns by blast
    show "\<forall>x\<in>set (take 20 entries). entry_usable env x \<longrightarrow>
            (\<forall>s r s'. rss_entry env fname tname x s = (r, s') \<longrightarrow> entry_id env x \<in> seen_ids s')"
      using rss_entry_records by blast
  qed
  with r show ?thesis by simp
qed

lemma news_item_returns:
  "\<not> item_raises env item \<Longrightarrow> \<exists>r s'. news_item env tname item s = (Inr r, s')"
proof -
  assume n: "\<not> item_raises env item"
  then obtain t where t: "get_title item = Inr t"
    by (auto simp: item_raises_def split: sum.splits)
  show ?thesis
  proof (cases "item_usable item")
    case True
    with n t have "news_article env [] item 0 \<noteq> None" by (simp add: item_raises_def)
    then have "news_article env tname item (calls s) \<noteq> None"
      using news_article_None [of env tname item "calls s" "[]" 0] by simp
    then obtain a where "news_article env tname item (calls s) = Some a" by blast
    with True show ?thesis by (simp add: news_item_usable)
  next
    case False
    with t show ?thesis by (auto simp: item_usable_def news_item_def)
  qed
qed

lemma news_item_records:
  assumes "\<not> item_raises env item" and "item_usable item"
    and "news_item env tname item s = (r, s')"
  shows "item_id env item \<in> seen_ids s'"
proof -
  from assms(1,2) have "news_article env [] item 0 \<noteq> None"
    by (auto simp: item_raises_def split: sum.splits)
  then have "news_article env tname item (calls s) \<noteq> None"
    using news_article_None [of env tname item "calls s" "[]" 0] by simp
  then obtain a where "news_article env tname item (calls s) = Some a" by blast
  with assms(2,3) show ?thesis by (auto simp: news_item_usable split: if_splits)
qed

lemma fetch_news_api_records:
  assumes "or_empty news_api_key \<noteq> []"
    and "newsapi_get env (calls st) (join '' OR '' (take 3 kws)) (or_empty news_api_key)
           = Inr (Present items)"
    and "\<forall>item\<in>set items. \<not> item_raises env item"
  shows "\<forall>item\<in>set items. item_usable item \<longrightarrow>
           item_id env item \<in> seen_ids (snd (fetch_news_api env news_api_key kws tname st))"
proof -
  obtain arts st' where r: "fetch_news_api env news_api_key kws tname st = (arts, st')"
    by (cases "fetch_news_api env news_api_key kws tname st")
  with assms(1,2) have l: "append_loop (news_item env tname) items
                   (st\<lparr>calls := Suc (calls st)\<rparr>) = (arts, st')"
    by (simp add: fetch_news_api_def)
  have "\<forall>item\<in>set items. item_usable item \<and> \<not> item_raises env item
           \<longrightarrow> item_id env item \<in> seen_ids st'"
  proof (rule append_loop_records [OF dedup_news_item _ _ l])
    show "\<forall>x\<in>set items. \<forall>s. \<exists>r s'. news_item env tname x s = (Inr r, s')"
      using assms(3) news_item_returns by blast
    show "\<forall>x\<in>set items. item_usable x \<and> \<not> item_raises env x \<longrightarrow>
            (\<forall>s r s'. news_item env tname x s = (r, s') \<longrightarrow> item_id env x \<in> seen_ids s')"
      using news_item_records by blast
  qed
  with r assms(3) show ?thesis by simp
qed

text \<open>
  C5. The deduplication drops an article whose id has been seen and otherwise records
  the id and keeps the article, in both loops: an entry, or a search result, that
  reaches it is dropped when its id is seen, and otherwise its Article is appended and
  its id added. When no entry among the first 20 of a feed raises, every such entry has
  its id seen before the fetch or among the returned articles, and likewise for the
  search results. The articles that \<open>fetch_rss_feed\<close> or \<open>fetch_news_api\<close> returns
  have pairwise different ids, none seen before the call, all seen after it; a second
  fetch of the same feed returns no article with an id of the first; and no two
  Articles of the mapping that \<open>fetch_all\<close> returns, across all topics, have the same
  id.
\<close>

theorem dedup_no_shared_ids:
  "dedup a st =
     (if article_id a \<in> seen_ids st then (None, st)
      else (Some a, st\<lparr>seen_ids := insert (article_id a) (seen_ids st)\<rparr>))
   \<and> (\<forall>e. entry_usable env e \<longrightarrow>
         rss_entry env fname tname e st =
           (if entry_id env e \<in> seen_ids st
            then (Inr None, st\<lparr>calls := snd (parse_published_date env (calls st) e)\<rparr>)
            else (Inr (Some (rss_article env fname tname e (calls st))),
                  st\<lparr>calls := snd (parse_published_date env (calls st) e),
                     seen_ids := insert (entry_id env e) (seen_ids st)\<rparr>))
         \<and> article_id (rss_article env fname tname e (calls st)) = entry_id env e)
   \<and> (\<forall>item b. item_usable item \<and> news_article env tname item (calls st) = Some b \<longrightarrow>
         news_item env tname item st =
           (if item_id env item \<in> seen_ids st
            then (Inr None, st\<lparr>calls := Suc (calls st)\<rparr>)
            else (Inr (Some b),
                  st\<lparr>calls := Suc (calls st),
                     seen_ids := insert (item_id env item) (seen_ids st)\<rparr>))
         \<and> article_id b = item_id env item)
   \<and> (\<forall>entries. feedparser_parse env (calls st) url = Inr entries
         \<and> (\<forall>e\<in>set (take 20 entries). \<not> entry_raises env e) \<longrightarrow>
         (\<forall>e\<in>set (take 20 entries). entry_usable env e \<longrightarrow>
            entry_id env e
              \<in> seen_ids st \<union> set (map article_id (fst (fetch_rss_feed env url fname tname st)))))
   \<and> (\<forall>items. or_empty news_api_key \<noteq> []
         \<and> newsapi_get env (calls st) (join '' OR '' (take 3 kws)) (or_empty news_api_key)
             = Inr (Present items)
         \<and> (\<forall>item\<in>set items. \<not> item_raises env item) \<longrightarrow>
         (\<forall>item\<in>set items. item_usable item \<longrightarrow>
            item_id env item
              \<in> seen_ids st
                  \<union> set (map article_id (fst (fetch_news_api env news_api_key kws tname st)))))
   \<and> (\<forall>arts st1. fetch_rss_feed env url fname tname st = (arts, st1) \<longrightarrow> adds st arts st1)
   \<and> (\<forall>arts st1. fetch_news_api env news_api_key kws tname st = (arts, st1)
         \<longrightarrow> adds st arts st1)
   \<and> (\<forall>arts st1 arts2 st2.
         fetch_rss_feed env url fname tname st = (arts, st1)
         \<and> fetch_rss_feed env url fname tname st1 = (arts2, st2)
         \<longrightarrow> set (map article_id arts) \<inter> set (map article_id arts2) = {})
   \<and> (\<forall>results st'. fetch_all env cfg news_api_key st = Inr (results, st')
         \<longrightarrow> distinct (map article_id (concat (map snd results))))"
proof (intro conjI allI impI ballI)
  show "dedup a st =
     (if article_id a \<in> seen_ids st then (None, st)
      else (Some a, st\<lparr>seen_ids := insert (article_id a) (seen_ids st)\<rparr>))"
    by (simp add: dedup_def)
next
  fix e assume "entry_usable env e"
  then show "rss_entry env fname tname e st =
           (if entry_id env e \<in> seen_ids st
            then (Inr None, st\<lparr>calls := snd (parse_published_date env (calls st) e)\<rparr>)
            else (Inr (Some (rss_article env fname tname e (calls st))),
                  st\<lparr>calls := snd (parse_published_date env (calls st) e),
                     seen_ids := insert (entry_id env e) (seen_ids st)\<rparr>))"
    by (rule rss_entry_usable)
next
  fix e
  show "article_id (rss_article env fname tname e (calls st)) = entry_id env e"
    by (rule article_id_rss_article)
next
  fix item b
  assume h: "item_usable item \<and> news_article env tname item (calls st) = Some b"
  then show "news_item env tname item st =
           (if item_id env item \<in> seen_ids st
            then (Inr None, st\<lparr>calls := Suc (calls st)\<rparr>)
            else (Inr (Some b),
                  st\<lparr>calls := Suc (calls st),
                     seen_ids := insert (item_id env item) (seen_ids st)\<rparr>))"
    by (simp add: news_item_usable)
  from h have "news_article env tname item (calls st) = Some b" by simp
  then show "article_id b = item_id env item"
    by (rule article_id_news_article)
next
  fix entries e
  assume h: "feedparser_parse env (calls st) url = Inr entries
         \<and> (\<forall>e\<in>set (take 20 entries). \<not> entry_raises env e)"
    and e: "e \<in> set (take 20 entries)" and u: "entry_usable env e"
  obtain arts st1 where r: "fetch_rss_feed env url fname tname st = (arts, st1)"
    by (cases "fetch_rss_feed env url fname tname st")
  from h e u have "entry_id env e \<in> seen_ids (snd (fetch_rss_feed env url fname tname st))"
    using fetch_rss_feed_records by blast
  moreover from r have "adds st arts st1" by (rule fetch_rss_feed_adds)
  ultimately show "entry_id env e
              \<in> seen_ids st \<union> set (map article_id (fst (fetch_rss_feed env url fname tname st)))"
    using r by (simp add: adds_def)
next
  fix items item
  assume h: "or_empty news_api_key \<noteq> []
         \<and> newsapi_get env (calls st) (join '' OR '' (take 3 kws)) (or_empty news_api_key)
             = Inr (Present items)
         \<and> (\<forall>item\<in>set items. \<not> item_raises env item)"
    and i: "item \<in> set items" and u: "item_usable item"
  obtain arts st1 where r: "fetch_news_api env news_api_key kws tname st = (arts, st1)"
    by (cases "fetch_news_api env news_api_key kws tname st")
  from h i u have "item_id env item \<in> seen_ids (snd (fetch_news_api env news_api_key kws tname st))"
    using fetch_news_api_records by blast
  moreover from r have "adds st arts st1" by (rule fetch_news_api_adds)
  ultimately show "item_id env item
              \<in> seen_ids st
                  \<union> set (map article_id (fst (fetch_news_api env news_api_key kws tname st)))"
    using r by (simp add: adds_def)
next
  fix arts st1
  assume "fetch_rss_feed env url fname tname st = (arts, st1)"
  then show "adds st arts st1" by (rule fetch_rss_feed_adds)
next
  fix arts st1
  assume "fetch_news_api env news_api_key kws tname st = (arts, st1)"
  then show "adds st arts st1" by (rule fetch_news_api_adds)
next
  fix arts st1 arts2 st2
  assume h: "fetch_rss_feed env url fname tname st = (arts, st1)
         \<and> fetch_rss_feed env url fname tname st1 = (arts2, st2)"
  then have "adds st arts st1" and "adds st1 arts2 st2"
    using fetch_rss_feed_adds by blast+
  then show "set (map article_id arts) \<inter> set (map article_id arts2) = {}"
    unfolding adds_def by blast
next
  fix results st'
  assume "fetch_all env cfg news_api_key st = Inr (results, st')"
  then obtain c where "fetch_topics env news_api_key (Aware c)
       (case max_articles_per_topic cfg of None \<Rightarrow> 10 | Some m \<Rightarrow> m) (topics cfg) []
       (st\<lparr>calls := Suc (calls st)\<rparr>) = Inr (results, st')"
    by (auto simp: fetch_all_def split: sum.splits)
  then show "distinct (map article_id (concat (map snd results)))"
    by (rule fetch_topics_ids) simp_all
qed

theorem dedup_no_shared_ids_witness:
  "map article_id (fst (fetch_rss_feed feed_env ''http://feed/a'' ''A'' ''NBA''
                          \<lparr>seen_ids = {}, calls = 0\<rparr>))
     = [''Lakers winht'', ''Trade newsht'', ''Last seasonh'']
   \<and> fst (fetch_rss_feed feed_env ''http://feed/a'' ''A'' ''NBA''
            (snd (fetch_rss_feed feed_env ''http://feed/a'' ''A'' ''NBA''
                    \<lparr>seen_ids = {}, calls = 0\<rparr>))) = []
   \<and> entry_usable feed_env (entry_of ''Lakers win'' ''http://x/1'' (Some (tm_of_year 2024)) None)
   \<and> entry_id feed_env (entry_of ''Lakers win'' ''http://x/1'' (Some (tm_of_year 2024)) None)
       = ''Lakers winht''
   \<and> map (\<lambda>a. (article_id a, source a, published a))
        (fst (fetch_news_api news_env (Some ''key'') [''lakers'', ''nba''] ''NBA''
                \<lparr>seen_ids = {''Lakers winht''}, calls = 5\<rparr>))
       = [(''Injury repor'', ''NewsAPI'', Aware 1704153600000000)]
   \<and> seen_ids (snd (fetch_news_api news_env (Some ''key'') [''lakers'', ''nba''] ''NBA''
                \<lparr>seen_ids = {''Lakers winht''}, calls = 5\<rparr>))
       = {''Injury repor'', ''Lakers winht''}
   \<and> map_sum (\<lambda>e. e) (\<lambda>r. map (\<lambda>kv. (fst kv, map article_id (snd kv))) (fst r))
        (fetch_all news_env news_cfg (Some ''key'') \<lparr>seen_ids = {}, calls = 0\<rparr>)
       = Inr [(''NBA'', [''Injury repor'', ''Lakers winht'', ''Trade newsht''])]
   \<and> map_sum (\<lambda>e. e) (\<lambda>r. map (\<lambda>kv. (fst kv, map article_id (snd kv))) (fst r))
        (fetch_all feed_env two_cfg None \<lparr>seen_ids = {}, calls = 0\<rparr>)
       = Inr [(''NBA'', [''Lakers winht'', ''Trade newsht'']), (''Lakers'', [])]"
proof -
  have e: "map article_id (fst (fetch_rss_feed feed_env ''http://feed/a'' ''A'' ''NBA''
                          \<lparr>seen_ids = {}, calls = 0\<rparr>))
     = [''Lakers winht'', ''Trade newsht'', ''Last seasonh'']
   \<and> fst (fetch_rss_feed feed_env ''http://feed/a'' ''A'' ''NBA''
            (snd (fetch_rss_feed feed_env ''http://feed/a'' ''A'' ''NBA''
                    \<lparr>seen_ids = {}, calls = 0\<rparr>))) = []"
    by code_simp
  have u: "entry_usable feed_env (entry_of ''Lakers win'' ''http://x/1'' (Some (tm_of_year 2024)) None)
   \<and> entry_id feed_env (entry_of ''Lakers win'' ''http://x/1'' (Some (tm_of_year 2024)) None)
       = ''Lakers winht''"
    by code_simp
  have n: "map (\<lambda>a. (article_id a, source a, published a))
        (fst (fetch_news_api news_env (Some ''key'') [''lakers'', ''nba''] ''NBA''
                \<lparr>seen_ids = {''Lakers winht''}, calls = 5\<rparr>))
       = [(''Injury repor'', ''NewsAPI'', Aware 1704153600000000)]"
    by code_simp
  have s: "seen_ids (snd (fetch_news_api news_env (Some ''key'') [''lakers'', ''nba''] ''NBA''
                \<lparr>seen_ids = {''Lakers winht''}, calls = 5\<rparr>))
       = {''Injury repor'', ''Lakers winht''}"
    by code_simp
  have f: "map_sum (\<lambda>e. e) (\<lambda>r. map (\<lambda>kv. (fst kv, map article_id (snd kv))) (fst r))
        (fetch_all news_env news_cfg (Some ''key'') \<lparr>seen_ids = {}, calls = 0\<rparr>)
       = Inr [(''NBA'', [''Injury repor'', ''Lakers winht'', ''Trade newsht''])]"
    by code_simp
  have g: "map_sum (\<lambda>e. e) (\<lambda>r. map (\<lambda>kv. (fst kv, map article_id (snd kv))) (fst r))
        (fetch_all feed_env two_cfg None \<lparr>seen_ids = {}, calls = 0\<rparr>)
       = Inr [(''NBA'', [''Lakers winht'', ''Trade newsht'']), (''Lakers'', [])]"
    by code_simp
  from dedup_no_shared_ids [of art1 "\<lparr>seen_ids = {''Lakers winht''}, calls = 5\<rparr>" news_env
      "''A''" "''NBA''" "''http://feed/a''" "Some ''key''" "[''lakers'', ''nba'']" news_cfg]
    e u n s f g
  show ?thesis by simp
qed

end
